theory Spec2Isabelle
  imports Main "HOL-Library.Sublist" "HOL-Library.Multiset"
begin

section \<open>The conversation store of \<open>src/main/services/database.ts\<close>\<close>

text \<open>
  The class \<open>DatabaseService\<close> keeps conversations and their messages in two SQLite
  tables and a full-text index over tokenised message contents, and answers searches
  with highlighted snippets.  The development below embeds its methods as HOL
  functions: the tables are lists of rows, every statement that the code runs is a
  function on the connection state, a thrown exception is the left summand of a sum
  type, and the collaborators that are not part of the file (the tokenizer, the query
  evaluation of the SQL engine, the case mappings of the host language and its
  regular-expression engine on patterns that are not literal) are parameters.
\<close>

subsection \<open>Errors\<close>

datatype error =
  SqliteError     \<comment> \<open>a statement failed in the storage engine\<close>
| TokenizerError  \<comment> \<open>\<open>tokenizerService.tokenize\<close> threw\<close>
| SyntaxError     \<comment> \<open>\<open>new RegExp\<close> rejected its pattern\<close>

subsection \<open>String primitives of the host language\<close>

text \<open>
  A string is a list of characters; one character of the model stands for one code unit
  of the source string.  Indices are integers, since the source uses \<open>-1\<close> for
  "not found".

  What the host language does with the case of letters is not fixed here; it is the
  parameter \<open>host\<close> of the functions below:
  \<^item> \<open>toLowerCase\<close> is \<open>String.prototype.toLowerCase\<close>, on a whole string (the
    result may differ in length from the argument);
  \<^item> \<open>canonicalize\<close> is the folding of one character under which a regular expression
    with the flag \<open>i\<close> compares characters;
  \<^item> \<open>regexp_replace k s\<close> is the result of
    \<open>s.replace(new RegExp(`(${k})`, 'gi'), ...)\<close> for a keyword \<open>k\<close> that has pattern
    syntax in it; the engine may reject the pattern.
\<close>

record host_strings =
  toLowerCase :: "string \<Rightarrow> string"
  canonicalize :: "char \<Rightarrow> char"
  regexp_replace :: "string \<Rightarrow> string \<Rightarrow> error + string"

text \<open>\<open>find_from k s i\<close>: the first position of \<open>k\<close> in \<open>s\<close>, where \<open>s\<close> starts at index \<open>i\<close>.\<close>

fun find_from :: "string \<Rightarrow> string \<Rightarrow> int \<Rightarrow> int" where
  "find_from k [] i = (if k = [] then i else - 1)"
| "find_from k (c # cs) i = (if prefix k (c # cs) then i else find_from k cs (i + 1))"

text \<open>\<open>s.indexOf(k, pos)\<close>: the position is clamped to the string.\<close>

definition indexOfFrom :: "string \<Rightarrow> string \<Rightarrow> int \<Rightarrow> int" where
  "indexOfFrom s k pos =
     (let p = min (max pos 0) (int (length s)) in find_from k (drop (nat p) s) p)"

definition indexOf :: "string \<Rightarrow> string \<Rightarrow> int" where
  "indexOf s k = indexOfFrom s k 0"

text \<open>\<open>last_from s k n\<close>: the greatest position \<open>\<le> n\<close> at which \<open>k\<close> occurs in \<open>s\<close>.\<close>

fun last_from :: "string \<Rightarrow> string \<Rightarrow> nat \<Rightarrow> int" where
  "last_from s k 0 = (if prefix k s then 0 else - 1)"
| "last_from s k (Suc n) =
     (if prefix k (drop (Suc n) s) then int (Suc n) else last_from s k n)"

text \<open>\<open>s.lastIndexOf(k, pos)\<close>.\<close>

definition lastIndexOf :: "string \<Rightarrow> string \<Rightarrow> int \<Rightarrow> int" where
  "lastIndexOf s k pos =
     (if length s < length k then - 1
      else last_from s k
             (nat (min (min (max pos 0) (int (length s))) (int (length s) - int (length k)))))"

text \<open>\<open>s.substring(a, b)\<close>: both ends are clamped to the string and swapped if reversed.\<close>

definition substring :: "string \<Rightarrow> int \<Rightarrow> int \<Rightarrow> string" where
  "substring s a b =
     (let n = int (length s);
          a' = min (max a 0) n;
          b' = min (max b 0) n;
          lo = min a' b';
          hi = max a' b'
      in take (nat (hi - lo)) (drop (nat lo) s))"

text \<open>\<open>s.split(sep)\<close> for a one-character separator: empty pieces are kept.\<close>

fun split_acc :: "char \<Rightarrow> string \<Rightarrow> string \<Rightarrow> string list" where
  "split_acc sep cur [] = [rev cur]"
| "split_acc sep cur (c # cs) =
     (if c = sep then rev cur # split_acc sep [] cs else split_acc sep (c # cur) cs)"

definition split :: "string \<Rightarrow> char \<Rightarrow> string list" where
  "split s sep = split_acc sep [] s"

text \<open>\<open>xs.join(sep)\<close>.\<close>

fun join :: "string list \<Rightarrow> string \<Rightarrow> string" where
  "join [] sep = []"
| "join [x] sep = x"
| "join (x # y # ys) sep = x @ sep @ join (y # ys) sep"

subsection \<open>Replacing with a regular expression built from a keyword\<close>

text \<open>
  \<open>generateSnippet\<close> builds \<open>new RegExp(`(${keyword})`, 'gi')\<close> and replaces every match
  by the match wrapped in a \<open>b\<close> element.  The keyword is the source text of the pattern.
  When it has none of the characters that are syntax in a pattern, the pattern matches
  the keyword itself, character by character under \<open>canonicalize\<close>, and the replacement
  goes through the subject from left to right over matches that do not overlap; the
  empty pattern matches once at every position, the end included.
\<close>

definition highlight_open :: string where
  "highlight_open =
     ''<b class=\"text-yellow-500 font-bold bg-yellow-100 dark:bg-yellow-900/30 px-1 rounded\">''"

definition highlight_close :: string where
  "highlight_close = ''</b>''"

definition pattern_syntax :: "char set" where
  "pattern_syntax = set (CHR 0x5C # ''^$.*+?()[]{}|'')"

definition literal_pattern :: "string \<Rightarrow> bool" where
  "literal_pattern k = (\<forall>c \<in> set k. c \<notin> pattern_syntax)"

definition matches_here :: "host_strings \<Rightarrow> string \<Rightarrow> string \<Rightarrow> bool" where
  "matches_here host k s =
     (length k \<le> length s \<and>
      map (canonicalize host) (take (length k) s) = map (canonicalize host) k)"

function replace_literal_gi :: "host_strings \<Rightarrow> string \<Rightarrow> string \<Rightarrow> string" where
  "replace_literal_gi host k [] = (if k = [] then highlight_open @ highlight_close else [])"
| "replace_literal_gi host k (c # cs) =
     (if k = [] then highlight_open @ highlight_close @ c # replace_literal_gi host k cs
      else if matches_here host k (c # cs)
      then highlight_open @ take (length k) (c # cs) @ highlight_close
             @ replace_literal_gi host k (drop (length k) (c # cs))
      else c # replace_literal_gi host k cs)"
  by pat_completeness auto
termination
  by (relation "measure (\<lambda>(host, k, s). length s)") auto

text \<open>
  For a keyword with pattern syntax in it the result is that of the regular-expression
  engine of the host.
\<close>

definition replace_keyword :: "host_strings \<Rightarrow> string \<Rightarrow> string \<Rightarrow> error + string" where
  "replace_keyword host k s =
     (if literal_pattern k then Inr (replace_literal_gi host k s) else regexp_replace host k s)"

subsection \<open>\<open>generateSnippet\<close>\<close>

text \<open>The first loop: the earliest occurrence of any keyword, the first keyword winning a tie.\<close>

fun first_match ::
  "host_strings \<Rightarrow> string \<Rightarrow> string list \<Rightarrow> int \<times> string \<Rightarrow> int \<times> string" where
  "first_match host lowerContent [] found = found"
| "first_match host lowerContent (keyword # rest) (firstIndex, matchedKeyword) =
     (let index = indexOf lowerContent (toLowerCase host keyword) in
      if index \<noteq> - 1 \<and> (firstIndex = - 1 \<or> index < firstIndex)
      then first_match host lowerContent rest (index, keyword)
      else first_match host lowerContent rest (firstIndex, matchedKeyword))"

text \<open>The bounds of the window, after the adjustment to the neighbouring spaces.\<close>

definition snippet_start :: "string \<Rightarrow> int \<Rightarrow> int \<Rightarrow> int" where
  "snippet_start content firstIndex halfLength =
     (let start = max 0 (firstIndex - halfLength) in
      if start > 0
      then (let spaceIndex = lastIndexOf content '' '' start in
            if spaceIndex > 0 \<and> start - spaceIndex < 20 then spaceIndex + 1 else start)
      else start)"

definition snippet_end :: "string \<Rightarrow> int \<Rightarrow> string \<Rightarrow> int \<Rightarrow> int" where
  "snippet_end content firstIndex matchedKeyword halfLength =
     (let end = min (int (length content)) (firstIndex + int (length matchedKeyword) + halfLength) in
      if end < int (length content)
      then (let spaceIndex = indexOfFrom content '' '' end in
            if spaceIndex > 0 \<and> spaceIndex - end < 20 then spaceIndex else end)
      else end)"

text \<open>The second loop: every keyword in turn is replaced in the snippet built so far.\<close>

fun highlight_all :: "host_strings \<Rightarrow> string list \<Rightarrow> string \<Rightarrow> error + string" where
  "highlight_all host [] snippet = Inr snippet"
| "highlight_all host (keyword # rest) snippet =
     (case replace_keyword host keyword snippet of
        Inl e \<Rightarrow> Inl e
      | Inr snippet' \<Rightarrow> highlight_all host rest snippet')"

definition generateSnippet :: "host_strings \<Rightarrow> string \<Rightarrow> string list \<Rightarrow> int \<Rightarrow> error + string" where
  "generateSnippet host content keywords maxLength =
     (if content = [] then Inr []
      else
        let (firstIndex, matchedKeyword) =
              first_match host (toLowerCase host content) keywords (- 1, [])
        in if firstIndex = - 1
           then Inr (substring content 0 maxLength
                       @ (if int (length content) > maxLength then ''...'' else []))
           else
             let halfLength = maxLength div 2;
                 start = snippet_start content firstIndex halfLength;
                 end = snippet_end content firstIndex matchedKeyword halfLength
             in case highlight_all host keywords (substring content start end) of
                  Inl e \<Rightarrow> Inl e
                | Inr snippet \<Rightarrow>
                    Inr ((if start > 0 then ''...'' else []) @ snippet
                           @ (if end < int (length content) then ''...'' else [])))"

subsection \<open>\<open>advancedSearch\<close>\<close>

text \<open>
  The query object: \<open>filters\<close>, \<open>options\<close> and each of their fields may be absent
  (\<open>None\<close>), as the optional chaining of the source expects.
\<close>

record date_range =
  range_start :: string
  range_end :: string

record search_filters =
  filter_platform :: "string list option"
  filter_dateRange :: "date_range option"
  filter_sender :: "string option"

record search_options =
  limit :: "int option"
  offset :: "int option"

record search_query =
  keyword :: string
  filters :: "search_filters option"
  options :: "search_options option"

text \<open>The named parameters bound to the statement.\<close>

record query_params =
  matchQuery :: string
  param_start :: "string option"
  param_end :: "string option"
  param_sender :: "string option"
  param_limit :: int
  param_offset :: int

text \<open>A row of the result, and the row with its snippet (\<open>{ ...row, snippet }\<close>).\<close>

record search_row =
  row_id :: string
  row_content :: string
  row_thinking :: string
  row_created_at :: string
  row_sender :: string
  row_platform :: string
  row_title :: string
  row_conversation_id :: string

record search_hit = search_row +
  snippet :: string

text \<open>
  \<open>tokenizerService.tokenize\<close> belongs to another module: it is a parameter that returns
  the tokens separated by spaces, or throws.  \<open>this.db.prepare(sql).all(params)\<close> is the
  evaluation of a query by the SQL engine on the current database: a parameter that gives
  the rows, or throws.
\<close>

type_synonym tokenizer = "string \<Rightarrow> error + string"

type_synonym query_engine = "string \<Rightarrow> query_params \<Rightarrow> error + search_row list"

text \<open>\<open>query.filters?.platform\<close> and the like.\<close>

definition filters_platform :: "search_query \<Rightarrow> string list option" where
  "filters_platform query = (case filters query of None \<Rightarrow> None | Some f \<Rightarrow> filter_platform f)"

definition filters_dateRange :: "search_query \<Rightarrow> date_range option" where
  "filters_dateRange query = (case filters query of None \<Rightarrow> None | Some f \<Rightarrow> filter_dateRange f)"

definition filters_sender :: "search_query \<Rightarrow> string option" where
  "filters_sender query = (case filters query of None \<Rightarrow> None | Some f \<Rightarrow> filter_sender f)"

definition options_limit :: "search_query \<Rightarrow> int option" where
  "options_limit query = (case options query of None \<Rightarrow> None | Some opts \<Rightarrow> limit opts)"

definition options_offset :: "search_query \<Rightarrow> int option" where
  "options_offset query = (case options query of None \<Rightarrow> None | Some opts \<Rightarrow> offset opts)"

text \<open>\<open>x || d\<close> on an optional number: absent and \<open>0\<close> are falsy.\<close>

definition or_default :: "int option \<Rightarrow> int \<Rightarrow> int" where
  "or_default x d = (case x of None \<Rightarrow> d | Some n \<Rightarrow> if n = 0 then d else n)"

text \<open>Steps 1 to 4 of \<open>advancedSearch\<close>: the text of the statement (its layout put on one
  line) and the parameters.\<close>

definition match_query :: "string \<Rightarrow> string" where
  "match_query tokens =
     join (map (\<lambda>t. [CHR 0x22] @ t @ [CHR 0x22] @ ''*'') (split tokens CHR '' '')) '' OR ''"

definition select_sql :: string where
  "select_sql =
     ''SELECT m.id, m.content, m.thinking, m.created_at, m.sender, c.platform, c.title, c.id as conversation_id''
     @ '' FROM messages_fts_index fts''
     @ '' JOIN messages_v2 m ON m.rowid = fts.rowid''
     @ '' JOIN conversations_v2 c ON m.conversation_id = c.id''
     @ '' WHERE messages_fts_index MATCH @matchQuery''"

definition build_query :: "search_query \<Rightarrow> string \<Rightarrow> string \<times> query_params" where
  "build_query query tokens =
     (let sql1 = select_sql
            @ (case filters_platform query of
                 None \<Rightarrow> []
               | Some ps \<Rightarrow>
                   if ps = [] then []
                   else '' AND c.platform IN (''
                          @ join (map (\<lambda>p. [CHR 0x27] @ p @ [CHR 0x27]) ps) '','' @ '')'');
          sql2 = sql1
            @ (case filters_dateRange query of
                 None \<Rightarrow> []
               | Some r \<Rightarrow> '' AND m.created_at BETWEEN @start AND @end'');
          sql3 = sql2
            @ (case filters_sender query of
                 None \<Rightarrow> []
               | Some sd \<Rightarrow> if sd = [] then [] else '' AND m.sender = @sender'');
          sql = sql3 @ '' ORDER BY m.created_at DESC LIMIT @limit OFFSET @offset''
      in (sql,
          \<lparr> matchQuery = match_query tokens,
            param_start = map_option range_start (filters_dateRange query),
            param_end = map_option range_end (filters_dateRange query),
            param_sender = (case filters_sender query of
                              None \<Rightarrow> None
                            | Some sd \<Rightarrow> if sd = [] then None else Some sd),
            param_limit = or_default (options_limit query) 20,
            param_offset = or_default (options_offset query) 0 \<rparr>))"

text \<open>Step 5: a snippet of at most about 60 characters for every row.\<close>

fun add_snippets :: "host_strings \<Rightarrow> string list \<Rightarrow> search_row list \<Rightarrow> error + search_hit list" where
  "add_snippets host tokenList [] = Inr []"
| "add_snippets host tokenList (row # rows) =
     (case generateSnippet host (row_content row) tokenList 60 of
        Inl e \<Rightarrow> Inl e
      | Inr sn \<Rightarrow>
          (case add_snippets host tokenList rows of
             Inl e \<Rightarrow> Inl e
           | Inr hits \<Rightarrow> Inr (search_row.extend row (search_hit.fields sn) # hits)))"

text \<open>
  What a call does: the value it returns or the exception it throws, the queries it
  handed to the engine, and what it wrote with \<open>console.error\<close>.
\<close>

record search_outcome =
  returned :: "error + search_hit list"
  submitted :: "(string \<times> query_params) list"
  logged :: "string list"

definition advancedSearch ::
  "tokenizer \<Rightarrow> query_engine \<Rightarrow> host_strings \<Rightarrow> search_query \<Rightarrow> search_outcome" where
  "advancedSearch tokenize engine host query =
     (case tokenize (keyword query) of
        Inl e \<Rightarrow> \<lparr> returned = Inl e, submitted = [], logged = [] \<rparr>
      | Inr tokens \<Rightarrow>
          if tokens = [] then \<lparr> returned = Inr [], submitted = [], logged = [] \<rparr>
          else
            let (sql, params) = build_query query tokens in
            (case engine sql params of
               Inl e \<Rightarrow>
                 \<lparr> returned = Inr [], submitted = [(sql, params)], logged = [''Search failed:''] \<rparr>
             | Inr results \<Rightarrow>
                 (case add_snippets host (split tokens CHR '' '') results of
                    Inl e \<Rightarrow>
                      \<lparr> returned = Inr [], submitted = [(sql, params)],
                        logged = [''Search failed:''] \<rparr>
                  | Inr hits \<Rightarrow>
                      \<lparr> returned = Inr hits, submitted = [(sql, params)], logged = [] \<rparr>)))"

subsection \<open>Conversations, messages and the tables\<close>

text \<open>
  The objects that callers pass and receive (fields of \<open>Conversation\<close> and of its
  messages that the file reads or writes).  \<open>thinking\<close> may be absent.
\<close>

record message =
  messageId :: string
  sender :: string
  content :: string
  thinking :: "string option"
  position :: int
  createdAt :: string
  updatedAt :: string

record conversation =
  conv_id :: string
  platform :: string
  title :: string
  url :: string
  conv_createdAt :: string
  conv_updatedAt :: string
  messageCount :: int
  messages :: "message list"

text \<open>The rows of \<open>conversations_v2\<close> and \<open>messages_v2\<close>, as \<open>initSchema\<close> declares them.\<close>

record conversation_row =
  c_id :: string
  c_platform :: string
  c_title :: string
  c_url :: string
  c_created_at :: string
  c_updated_at :: string
  c_message_count :: int

record message_row =
  m_id :: string
  m_conversation_id :: string
  m_sender :: string
  m_content :: string
  m_thinking :: string
  m_position :: int
  m_created_at :: string
  m_updated_at :: string

text \<open>
  The state of the connection.  Each table is the list of its rows with their rowids, in
  the order of insertion.  \<open>messages_fts_index\<close> is an index with external content:
  it holds, for a rowid, the token strings that were inserted for it, and an insertion,
  plain or \<open>OR REPLACE\<close>, adds one more without looking for an older one.  \<open>last_insert_rowid\<close> is
  the rowid of the last row inserted through the connection, \<open>0\<close> before any insertion;
  it belongs to the connection, not to the stored data.
\<close>

type_synonym rowid = int

record db =
  conversations_v2 :: "(rowid \<times> conversation_row) list"
  messages_v2 :: "(rowid \<times> message_row) list"
  messages_fts_index :: "(rowid \<times> string) list"
  last_insert_rowid :: rowid

definition stored ::
  "db \<Rightarrow> (rowid \<times> conversation_row) list \<times> (rowid \<times> message_row) list \<times> (rowid \<times> string) list" where
  "stored s = (conversations_v2 s, messages_v2 s, messages_fts_index s)"

text \<open>A new row gets the rowid after the greatest one in the table.\<close>

definition next_rowid :: "(rowid \<times> 'a) list \<Rightarrow> rowid" where
  "next_rowid rows = fold max (map fst rows) 0 + 1"

subsection \<open>Statements that write\<close>

text \<open>
  The statements that the file runs inside transactions, with their parameters.  Whether
  the storage engine fails on a statement (input and output faults, violated
  constraints) is not decided by the file: the oracle \<open>fault\<close> says, for the state in
  which the statement runs, whether it throws.  A statement that throws changes nothing.
\<close>

datatype statement =
  UpsertConversation conversation_row
| UpsertMessage message_row
| InsertFts rowid string
| InsertOrReplaceFts rowid string

type_synonym fault_oracle = "db \<Rightarrow> statement \<Rightarrow> bool"

text \<open>
  What \<open>run\<close> returns: \<open>changes\<close> is the number of rows that the statement inserted,
  updated or deleted; \<open>lastInsertRowid\<close> is the connection's \<open>last_insert_rowid\<close> after
  the statement, which a statement that inserted nothing leaves as it was.
\<close>

record run_result =
  changes :: int
  lastInsertRowid :: rowid

text \<open>\<open>INSERT INTO conversations_v2 ... ON CONFLICT(id) DO UPDATE SET title, url,
  updated_at, message_count\<close>.\<close>

definition upsert_conversation ::
  "fault_oracle \<Rightarrow> conversation_row \<Rightarrow> db \<Rightarrow> (error + run_result) \<times> db" where
  "upsert_conversation fault p s =
     (if fault s (UpsertConversation p) then (Inl SqliteError, s)
      else
        case find (\<lambda>(r, row). c_id row = c_id p) (conversations_v2 s) of
          Some found \<Rightarrow>
            (Inr \<lparr> changes = 1, lastInsertRowid = last_insert_rowid s \<rparr>,
             s\<lparr> conversations_v2 :=
                  map (\<lambda>(r, row).
                         if c_id row = c_id p
                         then (r, row\<lparr> c_title := c_title p, c_url := c_url p,
                                       c_updated_at := c_updated_at p,
                                       c_message_count := c_message_count p \<rparr>)
                         else (r, row))
                      (conversations_v2 s) \<rparr>)
        | None \<Rightarrow>
            (let r = next_rowid (conversations_v2 s) in
             (Inr \<lparr> changes = 1, lastInsertRowid = r \<rparr>,
              s\<lparr> conversations_v2 := conversations_v2 s @ [(r, p)], last_insert_rowid := r \<rparr>)))"

text \<open>\<open>INSERT INTO messages_v2 ... ON CONFLICT(id) DO UPDATE SET content, thinking,
  position, updated_at\<close>.\<close>

definition upsert_message ::
  "fault_oracle \<Rightarrow> message_row \<Rightarrow> db \<Rightarrow> (error + run_result) \<times> db" where
  "upsert_message fault p s =
     (if fault s (UpsertMessage p) then (Inl SqliteError, s)
      else
        case find (\<lambda>(r, row). m_id row = m_id p) (messages_v2 s) of
          Some found \<Rightarrow>
            (Inr \<lparr> changes = 1, lastInsertRowid = last_insert_rowid s \<rparr>,
             s\<lparr> messages_v2 :=
                  map (\<lambda>(r, row).
                         if m_id row = m_id p
                         then (r, row\<lparr> m_content := m_content p, m_thinking := m_thinking p,
                                       m_position := m_position p,
                                       m_updated_at := m_updated_at p \<rparr>)
                         else (r, row))
                      (messages_v2 s) \<rparr>)
        | None \<Rightarrow>
            (let r = next_rowid (messages_v2 s) in
             (Inr \<lparr> changes = 1, lastInsertRowid = r \<rparr>,
              s\<lparr> messages_v2 := messages_v2 s @ [(r, p)], last_insert_rowid := r \<rparr>)))"

text \<open>\<open>INSERT INTO messages_fts_index (rowid, tokens) VALUES (?, ?)\<close>.\<close>

definition insert_fts :: "fault_oracle \<Rightarrow> rowid \<Rightarrow> string \<Rightarrow> db \<Rightarrow> (error + run_result) \<times> db" where
  "insert_fts fault r tokens s =
     (if fault s (InsertFts r tokens) then (Inl SqliteError, s)
      else (Inr \<lparr> changes = 1, lastInsertRowid = r \<rparr>,
            s\<lparr> messages_fts_index := messages_fts_index s @ [(r, tokens)],
               last_insert_rowid := r \<rparr>))"

text \<open>\<open>INSERT OR REPLACE INTO messages_fts_index (rowid, tokens) VALUES (?, ?)\<close>: the index
  keeps no rows of its own to conflict with, so nothing is replaced and the entry is added
  to those that the index holds for the rowid.\<close>

definition insert_or_replace_fts ::
  "fault_oracle \<Rightarrow> rowid \<Rightarrow> string \<Rightarrow> db \<Rightarrow> (error + run_result) \<times> db" where
  "insert_or_replace_fts fault r tokens s =
     (if fault s (InsertOrReplaceFts r tokens) then (Inl SqliteError, s)
      else (Inr \<lparr> changes = 1, lastInsertRowid = r \<rparr>,
            s\<lparr> messages_fts_index := messages_fts_index s @ [(r, tokens)],
               last_insert_rowid := r \<rparr>))"

text \<open>
  \<open>this.db.transaction(f)\<close>: when \<open>f\<close> throws, the tables are put back as they were when
  the transaction began and the exception is thrown again.
\<close>

definition rollback :: "db \<Rightarrow> db \<Rightarrow> db" where
  "rollback s0 s =
     s\<lparr> conversations_v2 := conversations_v2 s0, messages_v2 := messages_v2 s0,
        messages_fts_index := messages_fts_index s0 \<rparr>"

definition transaction :: "(db \<Rightarrow> (error + 'a) \<times> db) \<Rightarrow> db \<Rightarrow> (error + 'a) \<times> db" where
  "transaction body s =
     (case body s of
        (Inl e, s') \<Rightarrow> (Inl e, rollback s s')
      | (Inr x, s') \<Rightarrow> (Inr x, s'))"

subsection \<open>\<open>saveConversation\<close>\<close>

definition conversation_params :: "conversation \<Rightarrow> conversation_row" where
  "conversation_params c =
     \<lparr> c_id = conv_id c, c_platform = platform c, c_title = title c, c_url = url c,
       c_created_at = conv_createdAt c, c_updated_at = conv_updatedAt c,
       c_message_count = int (length (messages c)) \<rparr>"

definition message_params :: "string \<Rightarrow> message \<Rightarrow> message_row" where
  "message_params cid msg =
     \<lparr> m_id = messageId msg, m_conversation_id = cid, m_sender = sender msg,
       m_content = content msg,
       m_thinking = (case thinking msg of None \<Rightarrow> [] | Some t \<Rightarrow> t),
       m_position = position msg, m_created_at = createdAt msg,
       m_updated_at = updatedAt msg \<rparr>"

text \<open>The loop over \<open>conversation.messages\<close>.\<close>

fun save_messages ::
  "tokenizer \<Rightarrow> fault_oracle \<Rightarrow> string \<Rightarrow> message list \<Rightarrow> db \<Rightarrow> (error + unit) \<times> db" where
  "save_messages tokenize fault cid [] s = (Inr (), s)"
| "save_messages tokenize fault cid (msg # rest) s =
     (case upsert_message fault (message_params cid msg) s of
        (Inl e, s1) \<Rightarrow> (Inl e, s1)
      | (Inr result, s1) \<Rightarrow>
          if changes result > 0 \<and> lastInsertRowid result \<noteq> 0
          then (case tokenize (content msg) of
                  Inl e \<Rightarrow> (Inl e, s1)
                | Inr tokens \<Rightarrow>
                    (case insert_fts fault (lastInsertRowid result) tokens s1 of
                       (Inl e, s2) \<Rightarrow> (Inl e, s2)
                     | (Inr r2, s2) \<Rightarrow> save_messages tokenize fault cid rest s2))
          else save_messages tokenize fault cid rest s1)"

text \<open>The body of the transaction \<open>saveTx\<close>.\<close>

definition saveTx :: "tokenizer \<Rightarrow> fault_oracle \<Rightarrow> conversation \<Rightarrow> db \<Rightarrow> (error + unit) \<times> db" where
  "saveTx tokenize fault c s =
     (case upsert_conversation fault (conversation_params c) s of
        (Inl e, s1) \<Rightarrow> (Inl e, s1)
      | (Inr result, s1) \<Rightarrow> save_messages tokenize fault (conv_id c) (messages c) s1)"

record save_result =
  status :: string

definition saveConversation ::
  "tokenizer \<Rightarrow> fault_oracle \<Rightarrow> conversation \<Rightarrow> db \<Rightarrow> (error + save_result) \<times> db" where
  "saveConversation tokenize fault c s =
     (case transaction (saveTx tokenize fault c) s of
        (Inl e, s') \<Rightarrow> (Inl e, s')
      | (Inr u, s') \<Rightarrow> (Inr \<lparr> status = ''ok'' \<rparr>, s'))"

subsection \<open>\<open>getConversation\<close>\<close>

definition message_of_row :: "message_row \<Rightarrow> message" where
  "message_of_row row =
     \<lparr> messageId = m_id row, sender = m_sender row, content = m_content row,
       thinking = Some (m_thinking row), position = m_position row,
       createdAt = m_created_at row, updatedAt = m_updated_at row \<rparr>"

text \<open>\<open>SELECT * FROM messages_v2 WHERE conversation_id = ? ORDER BY position ASC\<close>.\<close>

definition select_messages :: "db \<Rightarrow> string \<Rightarrow> message_row list" where
  "select_messages s cid =
     sort_key m_position (filter (\<lambda>row. m_conversation_id row = cid) (map snd (messages_v2 s)))"

definition getConversation :: "db \<Rightarrow> string \<Rightarrow> conversation option" where
  "getConversation s cid =
     (case find (\<lambda>(r, row). c_id row = cid) (conversations_v2 s) of
        None \<Rightarrow> None
      | Some (r, row) \<Rightarrow>
          Some \<lparr> conv_id = c_id row, platform = c_platform row, title = c_title row,
                 url = c_url row, conv_createdAt = c_created_at row,
                 conv_updatedAt = c_updated_at row, messageCount = c_message_count row,
                 messages = map message_of_row (select_messages s cid) \<rparr>)"

subsection \<open>\<open>reindexMessages\<close>\<close>

text \<open>The loop of \<open>runTransaction\<close> over the rows of \<open>SELECT rowid, content FROM messages_v2\<close>.\<close>

fun reindex_rows ::
  "tokenizer \<Rightarrow> fault_oracle \<Rightarrow> (rowid \<times> string) list \<Rightarrow> db \<Rightarrow> (error + unit) \<times> db" where
  "reindex_rows tokenize fault [] s = (Inr (), s)"
| "reindex_rows tokenize fault ((r, text) # msgs) s =
     (case tokenize text of
        Inl e \<Rightarrow> (Inl e, s)
      | Inr tokens \<Rightarrow>
          (case insert_or_replace_fts fault r tokens s of
             (Inl e, s1) \<Rightarrow> (Inl e, s1)
           | (Inr result, s1) \<Rightarrow> reindex_rows tokenize fault msgs s1))"

record reindex_result =
  success :: bool
  count' :: nat

definition reindexMessages ::
  "tokenizer \<Rightarrow> fault_oracle \<Rightarrow> db \<Rightarrow> (error + reindex_result) \<times> db" where
  "reindexMessages tokenize fault s =
     (let msgs = map (\<lambda>(r, row). (r, m_content row)) (messages_v2 s) in
      case transaction (reindex_rows tokenize fault msgs) s of
        (Inl e, s') \<Rightarrow> (Inl e, s')
      | (Inr u, s') \<Rightarrow> (Inr \<lparr> success = True, count' = length msgs \<rparr>, s'))"

subsection \<open>Sample data\<close>

text \<open>Concrete collaborators and inputs, on which the functions above are run.\<close>

text \<open>A host for texts in ASCII: the letters \<open>A\<close> to \<open>Z\<close> and \<open>a\<close> to \<open>z\<close> are the
  only ones with case, and no keyword with pattern syntax is accepted.\<close>

definition ascii_lower :: "char \<Rightarrow> char" where
  "ascii_lower c =
     (let n = (of_char c :: nat) in if 65 \<le> n \<and> n \<le> 90 then char_of (n + 32) else c)"

definition ascii_upper :: "char \<Rightarrow> char" where
  "ascii_upper c =
     (let n = (of_char c :: nat) in if 97 \<le> n \<and> n \<le> 122 then char_of (n - 32) else c)"

definition ascii_host :: host_strings where
  "ascii_host =
     \<lparr> toLowerCase = map ascii_lower, canonicalize = ascii_upper,
       regexp_replace = (\<lambda>k s. Inl SyntaxError) \<rparr>"

definition plain_tokenizer :: tokenizer where
  "plain_tokenizer t = Inr t"

definition picky_tokenizer :: tokenizer where
  "picky_tokenizer t = (if t = ''bad'' then Inl TokenizerError else Inr t)"

definition no_fault :: fault_oracle where
  "no_fault s st = False"

definition fault_on_message :: "string \<Rightarrow> fault_oracle" where
  "fault_on_message mid s st = (case st of UpsertMessage p \<Rightarrow> m_id p = mid | _ \<Rightarrow> False)"

definition empty_db :: db where
  "empty_db =
     \<lparr> conversations_v2 = [], messages_v2 = [], messages_fts_index = [],
       last_insert_rowid = 0 \<rparr>"

definition sample_message :: "string \<Rightarrow> int \<Rightarrow> string \<Rightarrow> string \<Rightarrow> message" where
  "sample_message mid pos txt at =
     \<lparr> messageId = mid, sender = ''user'', content = txt, thinking = None, position = pos,
       createdAt = at, updatedAt = at \<rparr>"

definition sample_conversation :: "string \<Rightarrow> string \<Rightarrow> message list \<Rightarrow> conversation" where
  "sample_conversation ttl at msgs =
     \<lparr> conv_id = ''c1'', platform = ''chatgpt'', title = ttl, url = ''https://chat/c1'',
       conv_createdAt = at, conv_updatedAt = at, messageCount = int (length msgs),
       messages = msgs \<rparr>"

definition sample_db :: db where
  "sample_db =
     snd (saveConversation plain_tokenizer no_fault
            (sample_conversation ''T'' ''d1''
               [sample_message ''m1'' 2 ''good'' ''d1'', sample_message ''m2'' 1 ''bad'' ''d1''])
            empty_db)"

section \<open>Properties\<close>

subsection \<open>Facts about the string primitives\<close>

lemma find_from_lower_bound: "find_from k s i = - 1 \<or> i \<le> find_from k s i"
proof (induction s arbitrary: i)
  case Nil
  show ?case by simp
next
  case (Cons c cs)
  from Cons [of "i + 1"] show ?case by auto
qed

lemma find_from_absent: "0 \<le> i \<Longrightarrow> find_from k s i = - 1 \<longleftrightarrow> \<not> sublist k s"
proof (induction s arbitrary: i)
  case Nil
  then show ?case by auto
next
  case (Cons c cs)
  then show ?case
    using find_from_lower_bound [of k cs "i + 1"] by (auto simp: sublist_Cons_right)
qed

lemma indexOf_absent: "indexOf s k = - 1 \<longleftrightarrow> \<not> sublist k s"
  by (simp add: indexOf_def indexOfFrom_def find_from_absent)

lemma first_match_absent:
  "\<forall>k \<in> set ks. \<not> sublist (toLowerCase host k) lc \<Longrightarrow>
   first_match host lc ks found = found"
  by (induction ks arbitrary: found) (auto simp: indexOf_absent Let_def)

lemma substring_from_0: "substring s 0 m = take (nat m) s"
  by (auto simp: substring_def Let_def min_def max_def)

subsection \<open>Snippets without a match\<close>

text \<open>
  Claim C6.  On empty content \<open>generateSnippet\<close> returns the empty string.  On content
  that is not empty and in which no keyword occurs, both put in lower case by the host, it
  returns the first \<open>maxLength\<close> characters of the content, followed by an ellipsis
  exactly when the content is longer than \<open>maxLength\<close>.  This holds for every host,
  whatever letters its lower case folds.
\<close>

theorem generateSnippet_no_match:
  "generateSnippet host [] ks maxLength = Inr [] \<and>
   (body \<noteq> [] \<longrightarrow>
    (\<forall>k \<in> set ks. \<not> sublist (toLowerCase host k) (toLowerCase host body)) \<longrightarrow>
    generateSnippet host body ks maxLength =
      Inr (take (nat maxLength) body
             @ (if int (length body) > maxLength then ''...'' else [])))"
  by (simp add: generateSnippet_def first_match_absent substring_from_0)

theorem generateSnippet_no_match_witness:
  "''hello world'' \<noteq> [] \<and>
   \<not> sublist (toLowerCase ascii_host ''zzz'') (toLowerCase ascii_host ''hello world'') \<and>
   \<not> sublist (toLowerCase ascii_host ''HELLOW'') (toLowerCase ascii_host ''hello world'') \<and>
   generateSnippet ascii_host ''hello world'' [''zzz'', ''HELLOW''] 5 = Inr ''hello...''"
proof -
  have n1: "\<not> sublist (toLowerCase ascii_host ''zzz'') (toLowerCase ascii_host ''hello world'')"
    by code_simp
  have n2: "\<not> sublist (toLowerCase ascii_host ''HELLOW'') (toLowerCase ascii_host ''hello world'')"
    by code_simp
  have absent:
    "\<forall>k \<in> set [''zzz'', ''HELLOW'']. \<not> sublist (toLowerCase ascii_host k) (toLowerCase ascii_host ''hello world'')"
    using n1 n2 by (simp only: list.set ball_simps insert_iff empty_iff) blast
  have ne: "''hello world'' \<noteq> []"
    by simp
  have "generateSnippet ascii_host ''hello world'' [''zzz'', ''HELLOW''] 5
          = Inr (take (nat 5) ''hello world''
                   @ (if int (length ''hello world'') > 5 then ''...'' else []))"
    by (rule generateSnippet_no_match [THEN conjunct2, THEN mp, THEN mp, OF ne absent])
  also have "\<dots> = Inr ''hello...''"
    by simp
  finally show ?thesis using n1 n2 ne by blast
qed

subsection \<open>Searches\<close>

text \<open>
  Claim C4.  When the keyword of a query tokenizes to no tokens, \<open>advancedSearch\<close>
  returns the empty list, as a value and not as an exception, hands no query to the
  storage engine and logs nothing.
\<close>

theorem advancedSearch_no_tokens:
  "tokenize (keyword query) = Inr [] \<Longrightarrow>
   advancedSearch tokenize engine host query = \<lparr> returned = Inr [], submitted = [], logged = [] \<rparr>"
  by (simp add: advancedSearch_def)

theorem advancedSearch_no_tokens_witness:
  "(\<lambda>t. Inr t) (keyword \<lparr> keyword = [], filters = None, options = None \<rparr>) = (Inr [] :: error + string) \<and>
   advancedSearch (\<lambda>t. Inr t) (\<lambda>sql params. Inl SqliteError) ascii_host
     \<lparr> keyword = [], filters = None, options = None \<rparr>
   = \<lparr> returned = Inr [], submitted = [], logged = [] \<rparr>"
  using advancedSearch_no_tokens
          [of "\<lambda>t. Inr t" "\<lparr> keyword = [], filters = None, options = None \<rparr>"
              "\<lambda>sql params. Inl SqliteError" ascii_host]
  by simp

text \<open>
  Claim C5.  When the engine fails on the query that \<open>advancedSearch\<close> built, the call
  logs the failure and returns the empty list; and whatever the engine does, an exception
  that leaves \<open>advancedSearch\<close> is one that the tokenizer threw, never one of the engine.
\<close>

theorem advancedSearch_engine_failure:
  "(tokenize (keyword query) = Inr tokens \<longrightarrow> tokens \<noteq> [] \<longrightarrow>
    engine (fst (build_query query tokens)) (snd (build_query query tokens)) = Inl e \<longrightarrow>
    returned (advancedSearch tokenize engine host query) = Inr [] \<and>
    logged (advancedSearch tokenize engine host query) = [''Search failed:'']) \<and>
   (returned (advancedSearch tokenize engine host query) = Inl e' \<longrightarrow>
    tokenize (keyword query) = Inl e')"
  by (auto simp: advancedSearch_def split: sum.splits prod.splits)

theorem advancedSearch_engine_failure_witness:
  "(\<lambda>t. Inr t) (keyword \<lparr> keyword = ''fox'', filters = None, options = None \<rparr>)
     = (Inr ''fox'' :: error + string) \<and>
   ''fox'' \<noteq> [] \<and>
   (\<lambda>sql params. Inl SqliteError)
      (fst (build_query \<lparr> keyword = ''fox'', filters = None, options = None \<rparr> ''fox''))
      (snd (build_query \<lparr> keyword = ''fox'', filters = None, options = None \<rparr> ''fox''))
     = (Inl SqliteError :: error + search_row list) \<and>
   returned (advancedSearch (\<lambda>t. Inr t) (\<lambda>sql params. Inl SqliteError)
               ascii_host \<lparr> keyword = ''fox'', filters = None, options = None \<rparr>)
     = Inr [] \<and>
   logged (advancedSearch (\<lambda>t. Inr t) (\<lambda>sql params. Inl SqliteError)
               ascii_host \<lparr> keyword = ''fox'', filters = None, options = None \<rparr>)
     = [''Search failed:'']"
  using advancedSearch_engine_failure
          [of "\<lambda>t. Inr t" "\<lparr> keyword = ''fox'', filters = None, options = None \<rparr>" "''fox''"
              "\<lambda>sql params. Inl SqliteError" SqliteError ascii_host]
  by simp

lemma build_query_limit:
  "param_limit (snd (build_query query tokens)) = or_default (options_limit query) 20"
  "param_offset (snd (build_query query tokens)) = or_default (options_offset query) 0"
  by (simp_all add: build_query_def Let_def)

lemma submitted_is_built:
  "(sql, params) \<in> set (submitted (advancedSearch tokenize engine host query)) \<Longrightarrow>
   \<exists>tokens. (sql, params) = build_query query tokens"
  unfolding advancedSearch_def
  by (cases "tokenize (keyword query)") (auto split: sum.splits prod.splits if_splits intro: sym)

lemma build_query_limit_0:
  "build_query (query\<lparr> options := Some (opts\<lparr> limit := Some 0 \<rparr>) \<rparr>) tokens
     = build_query (query\<lparr> options := Some (opts\<lparr> limit := Some 20 \<rparr>) \<rparr>) tokens"
  by (simp add: build_query_def or_default_def options_limit_def options_offset_def
        filters_platform_def filters_dateRange_def filters_sender_def)

text \<open>
  Claim C10.  In every query that \<open>advancedSearch\<close> hands to the engine, the limit is
  \<open>20\<close> when \<open>options.limit\<close> is absent or \<open>0\<close> and the given limit otherwise, and the
  offset is \<open>0\<close> when \<open>options.offset\<close> is absent or \<open>0\<close>; so a call with limit \<open>0\<close>
  does what the call with limit \<open>20\<close> does.
\<close>

theorem advancedSearch_limit_default:
  "(\<forall>(sql, params) \<in> set (submitted (advancedSearch tokenize engine host query)).
      param_limit params =
        (if options_limit query = None \<or> options_limit query = Some 0 then 20
         else the (options_limit query)) \<and>
      param_offset params =
        (if options_offset query = None \<or> options_offset query = Some 0 then 0
         else the (options_offset query))) \<and>
   advancedSearch tokenize engine host (query\<lparr> options := Some (opts\<lparr> limit := Some 0 \<rparr>) \<rparr>)
     = advancedSearch tokenize engine host (query\<lparr> options := Some (opts\<lparr> limit := Some 20 \<rparr>) \<rparr>)"
proof (intro conjI ballI)
  fix x
  assume x: "x \<in> set (submitted (advancedSearch tokenize engine host query))"
  obtain sql params where xp: "x = (sql, params)" by (cases x)
  with x obtain tokens where "(sql, params) = build_query query tokens"
    using submitted_is_built by blast
  then have "params = snd (build_query query tokens)" by (metis snd_conv)
  then have "param_limit params = or_default (options_limit query) 20"
    and "param_offset params = or_default (options_offset query) 0"
    by (simp_all add: build_query_limit)
  then show "case x of (sql, params) \<Rightarrow>
      param_limit params =
        (if options_limit query = None \<or> options_limit query = Some 0 then 20
         else the (options_limit query)) \<and>
      param_offset params =
        (if options_offset query = None \<or> options_offset query = Some 0 then 0
         else the (options_offset query))"
    unfolding xp by (auto simp: or_default_def split: option.splits)
next
  show "advancedSearch tokenize engine host (query\<lparr> options := Some (opts\<lparr> limit := Some 0 \<rparr>) \<rparr>)
     = advancedSearch tokenize engine host (query\<lparr> options := Some (opts\<lparr> limit := Some 20 \<rparr>) \<rparr>)"
    by (cases "tokenize (keyword query)") (simp_all add: advancedSearch_def build_query_limit_0)
qed

theorem advancedSearch_limit_default_witness:
  "build_query \<lparr> keyword = ''fox'', filters = None,
                 options = Some \<lparr> limit = Some 0, offset = None \<rparr> \<rparr> ''fox''
     \<in> set (submitted (advancedSearch (\<lambda>t. Inr t) (\<lambda>sql params. Inr []) ascii_host
                \<lparr> keyword = ''fox'', filters = None,
                  options = Some \<lparr> limit = Some 0, offset = None \<rparr> \<rparr>)) \<and>
   param_limit (snd (build_query \<lparr> keyword = ''fox'', filters = None,
                 options = Some \<lparr> limit = Some 0, offset = None \<rparr> \<rparr> ''fox'')) = 20 \<and>
   param_offset (snd (build_query \<lparr> keyword = ''fox'', filters = None,
                 options = Some \<lparr> limit = Some 0, offset = None \<rparr> \<rparr> ''fox'')) = 0"
proof -
  let ?q = "\<lparr> keyword = ''fox'', filters = None,
             options = Some \<lparr> limit = Some 0, offset = None \<rparr> \<rparr>"
  let ?out = "advancedSearch (\<lambda>t. Inr t) (\<lambda>sql params. Inr []) ascii_host ?q"
  have mem: "build_query ?q ''fox'' \<in> set (submitted ?out)"
    by (simp add: advancedSearch_def split: prod.splits)
  have lim: "options_limit ?q = Some 0" and off: "options_offset ?q = None"
    by (simp_all add: options_limit_def options_offset_def)
  from advancedSearch_limit_default
         [of "\<lambda>t. Inr t" "\<lambda>sql params. Inr []" ascii_host ?q]
  have "\<forall>(sql, params) \<in> set (submitted ?out).
          param_limit params =
            (if options_limit ?q = None \<or> options_limit ?q = Some 0 then 20
             else the (options_limit ?q)) \<and>
          param_offset params =
            (if options_offset ?q = None \<or> options_offset ?q = Some 0 then 0
             else the (options_offset ?q))"
    by (rule conjunct1)
  from bspec [OF this mem] have
    "param_limit (snd (build_query ?q ''fox'')) =
       (if options_limit ?q = None \<or> options_limit ?q = Some 0 then 20
        else the (options_limit ?q)) \<and>
     param_offset (snd (build_query ?q ''fox'')) =
       (if options_offset ?q = None \<or> options_offset ?q = Some 0 then 0
        else the (options_offset ?q))"
    by (simp only: split_beta)
  then have "param_limit (snd (build_query ?q ''fox'')) = 20
           \<and> param_offset (snd (build_query ?q ''fox'')) = 0"
    unfolding lim off by simp
  with mem show ?thesis by blast
qed

subsection \<open>Facts about the statements\<close>




lemma upsert_message_Inl:
  "upsert_message fault p s = (Inl e, s1) \<Longrightarrow> s1 = s"
  by (auto simp: upsert_message_def Let_def split: if_splits option.splits)

lemma upsert_message_other_tables:
  "upsert_message fault p s = (res, s1) \<Longrightarrow>
   conversations_v2 s1 = conversations_v2 s \<and> messages_fts_index s1 = messages_fts_index s"
  by (auto simp: upsert_message_def Let_def split: if_splits option.splits)

lemma upsert_message_row:
  assumes "upsert_message fault p s = (Inr res, s1)" and "(i, row) \<in> set (messages_v2 s)"
  shows "(i, if m_id row = m_id p
             then row\<lparr> m_content := m_content p, m_thinking := m_thinking p,
                       m_position := m_position p, m_updated_at := m_updated_at p \<rparr>
             else row) \<in> set (messages_v2 s1)"
proof (cases "find (\<lambda>(r, row). m_id row = m_id p) (messages_v2 s)")
  case None
  with assms(2) have "m_id row \<noteq> m_id p"
    by (auto simp: find_None_iff)
  with assms None show ?thesis
    by (auto simp: upsert_message_def Let_def split: if_splits)
next
  case (Some found)
  with assms(1) have
    "messages_v2 s1 =
       map (\<lambda>(r, row).
              if m_id row = m_id p
              then (r, row\<lparr> m_content := m_content p, m_thinking := m_thinking p,
                            m_position := m_position p, m_updated_at := m_updated_at p \<rparr>)
              else (r, row))
           (messages_v2 s)"
    by (auto simp: upsert_message_def split: if_splits)
  with assms(2) show ?thesis
    by (force simp: image_iff)
qed


lemma upsert_message_ids:
  assumes "upsert_message fault p s = (Inr res, s1)"
  shows "(m_id \<circ> snd) ` set (messages_v2 s) \<subseteq> (m_id \<circ> snd) ` set (messages_v2 s1)"
proof
  fix x
  assume "x \<in> (m_id \<circ> snd) ` set (messages_v2 s)"
  then obtain i row where ir: "(i, row) \<in> set (messages_v2 s)" and x: "x = m_id row"
    by auto
  from upsert_message_row [OF assms ir] x show "x \<in> (m_id \<circ> snd) ` set (messages_v2 s1)"
    by (force simp: image_iff split: if_splits)
qed

lemma insert_fts_other_tables:
  "insert_fts fault r tokens s = (res, s1) \<Longrightarrow>
   conversations_v2 s1 = conversations_v2 s \<and> messages_v2 s1 = messages_v2 s"
  by (auto simp: insert_fts_def split: if_splits)


subsection \<open>Facts about the loop over the messages\<close>

text \<open>One round of the loop that did not throw: the message was written, the two other
  tables of the state in which the rest of the loop runs are those after the write.\<close>

lemma save_messages_step:
  assumes "save_messages tokenize fault cid (msg # rest) s = (Inr u, s')"
  shows "\<exists>res s1 s2.
           upsert_message fault (message_params cid msg) s = (Inr res, s1) \<and>
           messages_v2 s2 = messages_v2 s1 \<and> conversations_v2 s2 = conversations_v2 s1 \<and>
           save_messages tokenize fault cid rest s2 = (Inr u, s')"
proof -
  obtain r0 s1 where up: "upsert_message fault (message_params cid msg) s = (r0, s1)"
    by (cases "upsert_message fault (message_params cid msg) s")
  show ?thesis
  proof (cases r0)
    case (Inl e)
    with assms up show ?thesis by simp
  next
    case (Inr res)
    show ?thesis
    proof (cases "changes res > 0 \<and> lastInsertRowid res \<noteq> 0")
      case False
      with assms up Inr have "save_messages tokenize fault cid rest s1 = (Inr u, s')"
        by auto
      with up Inr show ?thesis by blast
    next
      case True
      show ?thesis
      proof (cases "tokenize (content msg)")
        case (Inl e)
        with assms up Inr True show ?thesis by simp
      next
        case tok: (Inr tokens)
        obtain r2 s2 where ins: "insert_fts fault (lastInsertRowid res) tokens s1 = (r2, s2)"
          by (cases "insert_fts fault (lastInsertRowid res) tokens s1")
        show ?thesis
        proof (cases r2)
          case (Inl e)
          with assms up Inr True tok ins show ?thesis by simp
        next
          case ok: (Inr x)
          with assms up Inr True tok ins
          have "save_messages tokenize fault cid rest s2 = (Inr u, s')" by simp
          with up Inr insert_fts_other_tables [OF ins] show ?thesis by blast
        qed
      qed
    qed
  qed
qed

lemma save_messages_conversations:
  "save_messages tokenize fault cid msgs s = (Inr u, s') \<Longrightarrow>
   conversations_v2 s' = conversations_v2 s"
proof (induction msgs arbitrary: s)
  case Nil
  then show ?case by simp
next
  case (Cons msg rest)
  from save_messages_step [OF Cons.prems] obtain res s1 s2 where
    up: "upsert_message fault (message_params cid msg) s = (Inr res, s1)" and
    eq: "conversations_v2 s2 = conversations_v2 s1" and
    rest: "save_messages tokenize fault cid rest s2 = (Inr u, s')"
    by blast
  from Cons.IH [OF rest] eq upsert_message_other_tables [OF up] show ?case by simp
qed

text \<open>A row whose id is not among the messages of the save is left as it was.\<close>

lemma save_messages_untouched:
  "save_messages tokenize fault cid msgs s = (Inr u, s') \<Longrightarrow>
   (i, row) \<in> set (messages_v2 s) \<Longrightarrow> m_id row \<notin> messageId ` set msgs \<Longrightarrow>
   (i, row) \<in> set (messages_v2 s')"
proof (induction msgs arbitrary: s)
  case Nil
  then show ?case by simp
next
  case (Cons msg rest)
  from save_messages_step [OF Cons.prems(1)] obtain res s1 s2 where
    up: "upsert_message fault (message_params cid msg) s = (Inr res, s1)" and
    eq: "messages_v2 s2 = messages_v2 s1" and
    rest: "save_messages tokenize fault cid rest s2 = (Inr u, s')"
    by blast
  from Cons.prems(3) have "m_id row \<noteq> m_id (message_params cid msg)"
    by (simp add: message_params_def)
  with upsert_message_row [OF up Cons.prems(2)] eq have "(i, row) \<in> set (messages_v2 s2)"
    by simp
  moreover from Cons.prems(3) have "m_id row \<notin> messageId ` set rest" by simp
  ultimately show ?case using Cons.IH [OF rest] by blast
qed

text \<open>The row of a message that the table already holds, after a save in which \<open>msg\<close> is
  the last message with its id.\<close>

lemma save_messages_updated:
  "save_messages tokenize fault cid (pre @ msg # post) s = (Inr u, s') \<Longrightarrow>
   messageId msg \<notin> messageId ` set post \<Longrightarrow>
   (i, row) \<in> set (messages_v2 s) \<Longrightarrow> m_id row = messageId msg \<Longrightarrow>
   (i, row\<lparr> m_content := content msg,
            m_thinking := (case thinking msg of None \<Rightarrow> [] | Some t \<Rightarrow> t),
            m_position := position msg, m_updated_at := updatedAt msg \<rparr>)
     \<in> set (messages_v2 s')"
proof (induction pre arbitrary: s row)
  case Nil
  from Nil.prems(1) have "save_messages tokenize fault cid (msg # post) s = (Inr u, s')"
    by simp
  from save_messages_step [OF this] obtain res s1 s2 where
    up: "upsert_message fault (message_params cid msg) s = (Inr res, s1)" and
    eq: "messages_v2 s2 = messages_v2 s1" and
    rest: "save_messages tokenize fault cid post s2 = (Inr u, s')"
    by blast
  let ?row' = "row\<lparr> m_content := content msg,
            m_thinking := (case thinking msg of None \<Rightarrow> [] | Some t \<Rightarrow> t),
            m_position := position msg, m_updated_at := updatedAt msg \<rparr>"
  from upsert_message_row [OF up Nil.prems(3)] Nil.prems(4) eq
  have "(i, ?row') \<in> set (messages_v2 s2)"
    by (simp add: message_params_def)
  moreover from Nil.prems(2,4) have "m_id ?row' \<notin> messageId ` set post" by simp
  ultimately show ?case by (rule save_messages_untouched [OF rest])
next
  case (Cons m pre)
  from Cons.prems(1) have "save_messages tokenize fault cid (m # (pre @ msg # post)) s = (Inr u, s')"
    by simp
  from save_messages_step [OF this] obtain res s1 s2 where
    up: "upsert_message fault (message_params cid m) s = (Inr res, s1)" and
    eq: "messages_v2 s2 = messages_v2 s1" and
    rest: "save_messages tokenize fault cid (pre @ msg # post) s2 = (Inr u, s')"
    by blast
  let ?p = "message_params cid m"
  let ?row1 = "if m_id row = m_id ?p
               then row\<lparr> m_content := m_content ?p, m_thinking := m_thinking ?p,
                         m_position := m_position ?p, m_updated_at := m_updated_at ?p \<rparr>
               else row"
  from upsert_message_row [OF up Cons.prems(3)] eq have in2: "(i, ?row1) \<in> set (messages_v2 s2)"
    by simp
  have id1: "m_id ?row1 = messageId msg" using Cons.prems(4) by simp
  from Cons.IH [OF rest Cons.prems(2) in2 id1] show ?case
    by (simp split: if_splits)
qed

text \<open>Whatever the messages of the save, a row that the table holds keeps its rowid, its
  id, its sender, its conversation and its time of creation.\<close>

lemma save_messages_frame:
  "save_messages tokenize fault cid msgs s = (Inr u, s') \<Longrightarrow>
   (i, row) \<in> set (messages_v2 s) \<Longrightarrow>
   \<exists>row'. (i, row') \<in> set (messages_v2 s') \<and> m_id row' = m_id row \<and>
          m_sender row' = m_sender row \<and> m_conversation_id row' = m_conversation_id row \<and>
          m_created_at row' = m_created_at row"
proof (induction msgs arbitrary: s row)
  case Nil
  then show ?case by auto
next
  case (Cons msg rest)
  from save_messages_step [OF Cons.prems(1)] obtain res s1 s2 where
    up: "upsert_message fault (message_params cid msg) s = (Inr res, s1)" and
    eq: "messages_v2 s2 = messages_v2 s1" and
    rest: "save_messages tokenize fault cid rest s2 = (Inr u, s')"
    by blast
  let ?p = "message_params cid msg"
  let ?row1 = "if m_id row = m_id ?p
               then row\<lparr> m_content := m_content ?p, m_thinking := m_thinking ?p,
                         m_position := m_position ?p, m_updated_at := m_updated_at ?p \<rparr>
               else row"
  from upsert_message_row [OF up Cons.prems(2)] eq have in2: "(i, ?row1) \<in> set (messages_v2 s2)"
    by simp
  from Cons.IH [OF rest in2] obtain row' where
    "(i, row') \<in> set (messages_v2 s')" "m_id row' = m_id ?row1" "m_sender row' = m_sender ?row1"
    "m_conversation_id row' = m_conversation_id ?row1" "m_created_at row' = m_created_at ?row1"
    by blast
  then show ?case by (intro exI [of _ row']) (simp split: if_splits)
qed




subsection \<open>Facts about the transaction\<close>

lemma rollback_stored: "stored (rollback s s') = stored s"
  by (simp add: stored_def rollback_def)

lemma transaction_Inl:
  "transaction body s = (Inl e, s') \<Longrightarrow> stored s' = stored s"
  by (auto simp: transaction_def rollback_stored split: prod.splits sum.splits)

lemma transaction_Inr:
  "transaction body s = (Inr x, s') \<longleftrightarrow> body s = (Inr x, s')"
  by (auto simp: transaction_def split: prod.splits sum.splits)

lemma transaction_fails:
  "body s = (Inl e, s1) \<Longrightarrow> \<exists>s'. transaction body s = (Inl e, s')"
  by (simp add: transaction_def)


lemma saveConversation_Inr:
  "saveConversation tokenize fault c s = (Inr r, s') \<longleftrightarrow>
   r = \<lparr> status = ''ok'' \<rparr> \<and> saveTx tokenize fault c s = (Inr (), s')"
  by (cases "saveTx tokenize fault c s"; cases "fst (saveTx tokenize fault c s)")
     (auto simp: saveConversation_def transaction_def)


lemma upsert_conversation_messages:
  "upsert_conversation fault p s = (res, s1) \<Longrightarrow> messages_v2 s1 = messages_v2 s"
  by (auto simp: upsert_conversation_def Let_def split: if_splits option.splits)

lemma upsert_conversation_existing:
  assumes "upsert_conversation fault p s = (Inr res, s1)"
    and "(i, row) \<in> set (conversations_v2 s)" and "c_id row = c_id p"
  shows "conversations_v2 s1 =
           map (\<lambda>(r, row).
                  if c_id row = c_id p
                  then (r, row\<lparr> c_title := c_title p, c_url := c_url p,
                                c_updated_at := c_updated_at p,
                                c_message_count := c_message_count p \<rparr>)
                  else (r, row))
               (conversations_v2 s)"
proof -
  from assms(2,3) have "find (\<lambda>(r, row). c_id row = c_id p) (conversations_v2 s) \<noteq> None"
    by (auto simp: find_None_iff)
  with assms(1) show ?thesis
    by (auto simp: upsert_conversation_def split: if_splits)
qed

lemma saveTx_ok:
  assumes "saveTx tokenize fault c s = (Inr u, s')"
  shows "\<exists>res s1. upsert_conversation fault (conversation_params c) s = (Inr res, s1) \<and>
                  save_messages tokenize fault (conv_id c) (messages c) s1 = (Inr u, s')"
  using assms by (auto simp: saveTx_def split: prod.splits sum.splits)

lemmas run_defs =
  saveConversation_def transaction_def rollback_def saveTx_def upsert_conversation_def
  upsert_message_def insert_fts_def insert_or_replace_fts_def conversation_params_def
  message_params_def next_rowid_def stored_def reindexMessages_def getConversation_def
  select_messages_def message_of_row_def

lemmas sample_defs =
  plain_tokenizer_def picky_tokenizer_def no_fault_def fault_on_message_def empty_db_def
  sample_message_def sample_conversation_def

subsection \<open>Atomicity of a save\<close>



subsection \<open>What a second save changes\<close>

text \<open>
  Claim C9.  After a save that returned: when the table already held a row for the id of
  the conversation, the table of conversations is the old one in which that row has the
  new title, url, time of update and number of messages, so its platform and time of
  creation are as before and no row was added; every row that the table of messages held
  is still there under its rowid with its id, sender, conversation and time of creation
  unchanged; and the row of a message that the table already held has the content,
  thinking, position and time of update of the last message of the save with that id,
  and is the old row in every other field.
\<close>

theorem saveConversation_conflict_updates:
  assumes "saveConversation tokenize fault c s = (Inr r, s')"
  shows
    "((\<exists>(i, row) \<in> set (conversations_v2 s). c_id row = conv_id c) \<longrightarrow>
        conversations_v2 s' =
          map (\<lambda>(i, row).
                 if c_id row = conv_id c
                 then (i, row\<lparr> c_title := title c, c_url := url c,
                               c_updated_at := conv_updatedAt c,
                               c_message_count := int (length (messages c)) \<rparr>)
                 else (i, row))
              (conversations_v2 s)) \<and>
     (\<forall>(i, row) \<in> set (messages_v2 s).
        \<exists>row'. (i, row') \<in> set (messages_v2 s') \<and> m_id row' = m_id row \<and>
               m_sender row' = m_sender row \<and>
               m_conversation_id row' = m_conversation_id row \<and>
               m_created_at row' = m_created_at row) \<and>
     (\<forall>pre msg post. messages c = pre @ msg # post \<longrightarrow>
        messageId msg \<notin> messageId ` set post \<longrightarrow>
        (\<forall>(i, row) \<in> set (messages_v2 s). m_id row = messageId msg \<longrightarrow>
           (i, row\<lparr> m_content := content msg,
                    m_thinking := (case thinking msg of None \<Rightarrow> [] | Some t \<Rightarrow> t),
                    m_position := position msg, m_updated_at := updatedAt msg \<rparr>)
             \<in> set (messages_v2 s')))"
proof -
  from assms have "saveTx tokenize fault c s = (Inr (), s')"
    by (simp add: saveConversation_Inr)
  from saveTx_ok [OF this] obtain res s1 where
    up: "upsert_conversation fault (conversation_params c) s = (Inr res, s1)" and
    loop: "save_messages tokenize fault (conv_id c) (messages c) s1 = (Inr (), s')"
    by blast
  note msgs1 = upsert_conversation_messages [OF up]
  have convs: "conversations_v2 s' = conversations_v2 s1"
    by (rule save_messages_conversations [OF loop])
  have part1: "(\<exists>(i, row) \<in> set (conversations_v2 s). c_id row = conv_id c) \<longrightarrow>
        conversations_v2 s' =
          map (\<lambda>(i, row).
                 if c_id row = conv_id c
                 then (i, row\<lparr> c_title := title c, c_url := url c,
                               c_updated_at := conv_updatedAt c,
                               c_message_count := int (length (messages c)) \<rparr>)
                 else (i, row))
              (conversations_v2 s)"
  proof
    assume "\<exists>(i, row) \<in> set (conversations_v2 s). c_id row = conv_id c"
    then obtain i row where ir: "(i, row) \<in> set (conversations_v2 s)"
      "c_id row = c_id (conversation_params c)"
      by (auto simp: conversation_params_def)
    have cp: "c_id (conversation_params c) = conv_id c"
      "c_title (conversation_params c) = title c" "c_url (conversation_params c) = url c"
      "c_updated_at (conversation_params c) = conv_updatedAt c"
      "c_message_count (conversation_params c) = int (length (messages c))"
      by (simp_all add: conversation_params_def)
    from upsert_conversation_existing [OF up ir, unfolded cp] convs
    show "conversations_v2 s' =
          map (\<lambda>(i, row).
                 if c_id row = conv_id c
                 then (i, row\<lparr> c_title := title c, c_url := url c,
                               c_updated_at := conv_updatedAt c,
                               c_message_count := int (length (messages c)) \<rparr>)
                 else (i, row))
              (conversations_v2 s)"
      by simp
  qed
  have part2: "\<forall>(i, row) \<in> set (messages_v2 s).
        \<exists>row'. (i, row') \<in> set (messages_v2 s') \<and> m_id row' = m_id row \<and>
               m_sender row' = m_sender row \<and>
               m_conversation_id row' = m_conversation_id row \<and>
               m_created_at row' = m_created_at row"
  proof (intro ballI, clarify)
    fix i row
    assume "(i, row) \<in> set (messages_v2 s)"
    with msgs1 have "(i, row) \<in> set (messages_v2 s1)" by simp
    from save_messages_frame [OF loop this]
    show "\<exists>row'. (i, row') \<in> set (messages_v2 s') \<and> m_id row' = m_id row \<and>
               m_sender row' = m_sender row \<and>
               m_conversation_id row' = m_conversation_id row \<and>
               m_created_at row' = m_created_at row" .
  qed
  have part3: "\<forall>pre msg post. messages c = pre @ msg # post \<longrightarrow>
        messageId msg \<notin> messageId ` set post \<longrightarrow>
        (\<forall>(i, row) \<in> set (messages_v2 s). m_id row = messageId msg \<longrightarrow>
           (i, row\<lparr> m_content := content msg,
                    m_thinking := (case thinking msg of None \<Rightarrow> [] | Some t \<Rightarrow> t),
                    m_position := position msg, m_updated_at := updatedAt msg \<rparr>)
             \<in> set (messages_v2 s'))"
  proof (intro allI impI ballI, clarify)
    fix pre msg post i row
    assume split: "messages c = pre @ msg # post"
      and last: "messageId msg \<notin> messageId ` set post"
      and row: "(i, row) \<in> set (messages_v2 s)" and same: "m_id row = messageId msg"
    from loop split
    have run: "save_messages tokenize fault (conv_id c) (pre @ msg # post) s1 = (Inr (), s')"
      by simp
    from row msgs1 have row1: "(i, row) \<in> set (messages_v2 s1)" by simp
    show "(i, row\<lparr> m_content := content msg,
                    m_thinking := (case thinking msg of None \<Rightarrow> [] | Some t \<Rightarrow> t),
                    m_position := position msg, m_updated_at := updatedAt msg \<rparr>)
             \<in> set (messages_v2 s')"
      by (rule save_messages_updated [OF run last row1 same])
  qed
  from part1 part2 part3 show ?thesis by blast
qed

theorem saveConversation_conflict_updates_witness:
  "saveConversation plain_tokenizer no_fault
     (sample_conversation ''second'' ''d2''
        [(sample_message ''m1'' 5 ''world'' ''d2'')\<lparr> sender := ''assistant'' \<rparr>])
     (snd (saveConversation plain_tokenizer no_fault
             (sample_conversation ''first'' ''d1'' [sample_message ''m1'' 0 ''hello'' ''d1''])
             empty_db))
   = (Inr \<lparr> status = ''ok'' \<rparr>,
      \<lparr> conversations_v2 =
          [(1, \<lparr> c_id = ''c1'', c_platform = ''chatgpt'', c_title = ''second'',
                 c_url = ''https://chat/c1'', c_created_at = ''d1'', c_updated_at = ''d2'',
                 c_message_count = 1 \<rparr>)],
        messages_v2 =
          [(1, \<lparr> m_id = ''m1'', m_conversation_id = ''c1'', m_sender = ''user'',
                 m_content = ''world'', m_thinking = [], m_position = 5,
                 m_created_at = ''d1'', m_updated_at = ''d2'' \<rparr>)],
        messages_fts_index = [(1, ''hello''), (1, ''world'')],
        last_insert_rowid = 1 \<rparr>)"
proof -
  let ?c1 = "sample_conversation ''first'' ''d1'' [sample_message ''m1'' 0 ''hello'' ''d1'']"
  let ?m2 = "(sample_message ''m1'' 5 ''world'' ''d2'')\<lparr> sender := ''assistant'' \<rparr>"
  let ?c2 = "sample_conversation ''second'' ''d2'' [?m2]"
  let ?row1 = "\<lparr> m_id = ''m1'', m_conversation_id = ''c1'', m_sender = ''user'',
                 m_content = ''hello'', m_thinking = [], m_position = 0,
                 m_created_at = ''d1'', m_updated_at = ''d1'' \<rparr>"
  let ?s1 = "\<lparr> conversations_v2 =
          [(1, \<lparr> c_id = ''c1'', c_platform = ''chatgpt'', c_title = ''first'',
                 c_url = ''https://chat/c1'', c_created_at = ''d1'', c_updated_at = ''d1'',
                 c_message_count = 1 \<rparr>)],
        messages_v2 = [(1, ?row1)],
        messages_fts_index = [(1, ''hello'')],
        last_insert_rowid = 1 \<rparr>"
  let ?s2 = "\<lparr> conversations_v2 =
          [(1, \<lparr> c_id = ''c1'', c_platform = ''chatgpt'', c_title = ''second'',
                 c_url = ''https://chat/c1'', c_created_at = ''d1'', c_updated_at = ''d2'',
                 c_message_count = 1 \<rparr>)],
        messages_v2 =
          [(1, \<lparr> m_id = ''m1'', m_conversation_id = ''c1'', m_sender = ''user'',
                 m_content = ''world'', m_thinking = [], m_position = 5,
                 m_created_at = ''d1'', m_updated_at = ''d2'' \<rparr>)],
        messages_fts_index = [(1, ''hello''), (1, ''world'')],
        last_insert_rowid = 1 \<rparr>"
  have first: "snd (saveConversation plain_tokenizer no_fault ?c1 empty_db) = ?s1"
    by (simp add: run_defs sample_defs)
  have second: "saveConversation plain_tokenizer no_fault ?c2 ?s1 = (Inr \<lparr> status = ''ok'' \<rparr>, ?s2)"
    by (simp add: run_defs sample_defs)
  note frame = saveConversation_conflict_updates [OF second]
  have "(1, ?row1) \<in> set (messages_v2 ?s1)" by simp
  with frame have "\<exists>row'. (1, row') \<in> set (messages_v2 ?s2) \<and> m_id row' = m_id ?row1 \<and>
               m_sender row' = m_sender ?row1 \<and>
               m_conversation_id row' = m_conversation_id ?row1 \<and>
               m_created_at row' = m_created_at ?row1"
    by blast
  with first second show ?thesis by simp
qed

subsection \<open>Reading a conversation\<close>

lemma find_Some_member: "find P xs = Some x \<Longrightarrow> x \<in> set xs \<and> P x"
  by (auto simp: find_Some_iff)

lemma map_position_sort_key:
  "map m_position (sort_key m_position rows) = sort (map m_position rows)"
  by (rule properties_for_sort [symmetric]) simp_all

text \<open>
  Claim C8.  \<open>getConversation\<close> returns the not-found value exactly when the table holds
  no conversation with the id.  Otherwise the conversation it returns has the fields of a
  row of the table with that id, and its messages are, field by field, the rows of the
  table of messages that belong to the id, each once, in ascending order of position;
  and the positions come out in the same sequence from any table that holds the same rows
  in another order.
\<close>

theorem getConversation_messages_ordered:
  "(getConversation s cid = None \<longleftrightarrow> (\<forall>(i, row) \<in> set (conversations_v2 s). c_id row \<noteq> cid)) \<and>
   (\<forall>c. getConversation s cid = Some c \<longrightarrow>
      (\<exists>(i, row) \<in> set (conversations_v2 s).
          c_id row = cid \<and> conv_id c = c_id row \<and> platform c = c_platform row \<and>
          title c = c_title row \<and> url c = c_url row \<and>
          conv_createdAt c = c_created_at row \<and> conv_updatedAt c = c_updated_at row \<and>
          messageCount c = c_message_count row) \<and>
      (\<exists>rows.
          mset rows =
            mset (filter (\<lambda>row. m_conversation_id row = cid) (map snd (messages_v2 s))) \<and>
          sorted (map m_position rows) \<and>
          messages c =
            map (\<lambda>row. \<lparr> messageId = m_id row, sender = m_sender row,
                         content = m_content row, thinking = Some (m_thinking row),
                         position = m_position row, createdAt = m_created_at row,
                         updatedAt = m_updated_at row \<rparr>)
                rows) \<and>
      sorted (map position (messages c))) \<and>
   (\<forall>s'. conversations_v2 s' = conversations_v2 s \<longrightarrow>
      mset (messages_v2 s') = mset (messages_v2 s) \<longrightarrow>
      map_option (\<lambda>c. map position (messages c)) (getConversation s' cid)
        = map_option (\<lambda>c. map position (messages c)) (getConversation s cid))"
proof (intro conjI allI impI)
  show "getConversation s cid = None \<longleftrightarrow> (\<forall>(i, row) \<in> set (conversations_v2 s). c_id row \<noteq> cid)"
  proof (cases "find (\<lambda>(r, row). c_id row = cid) (conversations_v2 s)")
    case None
    then have "getConversation s cid = None"
      by (simp add: getConversation_def)
    moreover from None have "\<forall>(i, row) \<in> set (conversations_v2 s). c_id row \<noteq> cid"
      by (auto simp: find_None_iff)
    ultimately show ?thesis by blast
  next
    case (Some found)
    obtain i row where ir: "found = (i, row)" by (cases found)
    from Some ir have "getConversation s cid \<noteq> None"
      by (simp add: getConversation_def)
    moreover from find_Some_member [OF Some] ir
    have "(i, row) \<in> set (conversations_v2 s)" "c_id row = cid"
      by auto
    then have "\<not> (\<forall>(i, row) \<in> set (conversations_v2 s). c_id row \<noteq> cid)"
      by blast
    ultimately show ?thesis by blast
  qed
next
  fix c
  assume some: "getConversation s cid = Some c"
  then obtain i row where found: "find (\<lambda>(r, row). c_id row = cid) (conversations_v2 s) = Some (i, row)"
    by (auto simp: getConversation_def split: option.splits)
  from find_Some_member [OF found] have mem: "(i, row) \<in> set (conversations_v2 s)"
    and cid: "c_id row = cid"
    by auto
  from some found have c:
    "c = \<lparr> conv_id = c_id row, platform = c_platform row, title = c_title row,
           url = c_url row, conv_createdAt = c_created_at row,
           conv_updatedAt = c_updated_at row, messageCount = c_message_count row,
           messages = map message_of_row (select_messages s cid) \<rparr>"
    by (simp add: getConversation_def)
  have fields: "c_id row = cid \<and> conv_id c = c_id row \<and> platform c = c_platform row \<and>
          title c = c_title row \<and> url c = c_url row \<and>
          conv_createdAt c = c_created_at row \<and> conv_updatedAt c = c_updated_at row \<and>
          messageCount c = c_message_count row"
    using cid by (simp add: c)
  with mem show "\<exists>(i, row) \<in> set (conversations_v2 s).
          c_id row = cid \<and> conv_id c = c_id row \<and> platform c = c_platform row \<and>
          title c = c_title row \<and> url c = c_url row \<and>
          conv_createdAt c = c_created_at row \<and> conv_updatedAt c = c_updated_at row \<and>
          messageCount c = c_message_count row"
    by blast
  have msgs: "messages c = map message_of_row (select_messages s cid)"
    by (simp add: c)
  have built: "message_of_row =
      (\<lambda>row. \<lparr> messageId = m_id row, sender = m_sender row,
                 content = m_content row, thinking = Some (m_thinking row),
                 position = m_position row, createdAt = m_created_at row,
                 updatedAt = m_updated_at row \<rparr>)"
    by (rule ext) (simp add: message_of_row_def)
  have "mset (select_messages s cid) =
          mset (filter (\<lambda>row. m_conversation_id row = cid) (map snd (messages_v2 s)))"
    and "sorted (map m_position (select_messages s cid))"
    by (simp_all add: select_messages_def)
  moreover have "messages c =
            map (\<lambda>row. \<lparr> messageId = m_id row, sender = m_sender row,
                         content = m_content row, thinking = Some (m_thinking row),
                         position = m_position row, createdAt = m_created_at row,
                         updatedAt = m_updated_at row \<rparr>)
                (select_messages s cid)"
    unfolding msgs built ..
  ultimately show "\<exists>rows.
          mset rows =
            mset (filter (\<lambda>row. m_conversation_id row = cid) (map snd (messages_v2 s))) \<and>
          sorted (map m_position rows) \<and>
          messages c =
            map (\<lambda>row. \<lparr> messageId = m_id row, sender = m_sender row,
                         content = m_content row, thinking = Some (m_thinking row),
                         position = m_position row, createdAt = m_created_at row,
                         updatedAt = m_updated_at row \<rparr>)
                rows"
    by blast
  have pos: "map position (map message_of_row rows) = map m_position rows" for rows
    by (simp add: message_of_row_def)
  show "sorted (map position (messages c))"
    unfolding msgs pos by (simp add: select_messages_def)
next
  fix s' :: db
  assume convs: "conversations_v2 s' = conversations_v2 s"
    and rows: "mset (messages_v2 s') = mset (messages_v2 s)"
  have pos: "map position (map message_of_row rows) = map m_position rows" for rows
    by (simp add: message_of_row_def)
  have "sort (map m_position (filter (\<lambda>row. m_conversation_id row = cid) (map snd (messages_v2 s'))))
      = sort (map m_position (filter (\<lambda>row. m_conversation_id row = cid) (map snd (messages_v2 s))))"
    by (rule properties_for_sort) (simp_all add: rows)
  then have "map position (map message_of_row (select_messages s' cid))
           = map position (map message_of_row (select_messages s cid))"
    unfolding pos select_messages_def map_position_sort_key .
  then show "map_option (\<lambda>c. map position (messages c)) (getConversation s' cid)
        = map_option (\<lambda>c. map position (messages c)) (getConversation s cid)"
    by (auto simp: getConversation_def convs split: option.splits)
qed

lemma sample_db_eq:
  "sample_db =
     \<lparr> conversations_v2 =
         [(1, \<lparr> c_id = ''c1'', c_platform = ''chatgpt'', c_title = ''T'',
                c_url = ''https://chat/c1'', c_created_at = ''d1'', c_updated_at = ''d1'',
                c_message_count = 2 \<rparr>)],
       messages_v2 =
         [(1, \<lparr> m_id = ''m1'', m_conversation_id = ''c1'', m_sender = ''user'',
                m_content = ''good'', m_thinking = [], m_position = 2,
                m_created_at = ''d1'', m_updated_at = ''d1'' \<rparr>),
          (2, \<lparr> m_id = ''m2'', m_conversation_id = ''c1'', m_sender = ''user'',
                m_content = ''bad'', m_thinking = [], m_position = 1,
                m_created_at = ''d1'', m_updated_at = ''d1'' \<rparr>)],
       messages_fts_index = [(1, ''good''), (2, ''bad'')],
       last_insert_rowid = 2 \<rparr>"
  by (simp add: sample_db_def run_defs sample_defs)

theorem getConversation_messages_ordered_witness:
  "getConversation sample_db ''c1''
     = Some \<lparr> conv_id = ''c1'', platform = ''chatgpt'', title = ''T'',
              url = ''https://chat/c1'', conv_createdAt = ''d1'', conv_updatedAt = ''d1'',
              messageCount = 2,
              messages =
                [\<lparr> messageId = ''m2'', sender = ''user'', content = ''bad'',
                   thinking = Some [], position = 1, createdAt = ''d1'',
                   updatedAt = ''d1'' \<rparr>,
                 \<lparr> messageId = ''m1'', sender = ''user'', content = ''good'',
                   thinking = Some [], position = 2, createdAt = ''d1'',
                   updatedAt = ''d1'' \<rparr>] \<rparr> \<and>
   sorted (map position (messages (the (getConversation sample_db ''c1'')))) \<and>
   getConversation sample_db ''c2'' = None"
proof -
  let ?c = "\<lparr> conv_id = ''c1'', platform = ''chatgpt'', title = ''T'',
              url = ''https://chat/c1'', conv_createdAt = ''d1'', conv_updatedAt = ''d1'',
              messageCount = 2,
              messages =
                [\<lparr> messageId = ''m2'', sender = ''user'', content = ''bad'',
                   thinking = Some [], position = 1, createdAt = ''d1'',
                   updatedAt = ''d1'' \<rparr>,
                 \<lparr> messageId = ''m1'', sender = ''user'', content = ''good'',
                   thinking = Some [], position = 2, createdAt = ''d1'',
                   updatedAt = ''d1'' \<rparr>] \<rparr>"
  have c: "getConversation sample_db ''c1'' = Some ?c"
    by (simp add: sample_db_eq getConversation_def select_messages_def message_of_row_def)
  note spec = getConversation_messages_ordered [of sample_db]
  from spec [of "''c1''"] c have "sorted (map position (messages ?c))"
    by blast
  with c have ordered: "sorted (map position (messages (the (getConversation sample_db ''c1''))))"
    by simp
  have "\<forall>(i, row) \<in> set (conversations_v2 sample_db). c_id row \<noteq> ''c2''"
    by (simp add: sample_db_eq)
  with spec [of "''c2''"] have "getConversation sample_db ''c2'' = None"
    by blast
  with c ordered show ?thesis by blast
qed

subsection \<open>The index after a second save\<close>

text \<open>
  Claim C1 says that a message has one entry in the index, written when the message is
  first inserted, and that saving the message again with another content neither updates
  nor duplicates it.  The code tests \<open>result.changes > 0 && result.lastInsertRowid\<close> to
  tell an insertion from an update; an update also changes one row, and the last inserted
  rowid of the connection is still that of the earlier insertion.  Saving a conversation
  of two messages and saving it again after the first message changed writes two more
  entries, both under the rowid of the second message.
\<close>

theorem saveConversation_second_save_writes_index:
  "messages_fts_index
     (snd (saveConversation plain_tokenizer no_fault
             (sample_conversation ''T'' ''d2''
                [sample_message ''m1'' 1 ''gamma'' ''d2'', sample_message ''m2'' 2 ''beta'' ''d1''])
             (snd (saveConversation plain_tokenizer no_fault
                     (sample_conversation ''T'' ''d1''
                        [sample_message ''m1'' 1 ''alpha'' ''d1'',
                         sample_message ''m2'' 2 ''beta'' ''d1''])
                     empty_db))))
   = [(1, ''alpha''), (2, ''beta''), (2, ''gamma''), (2, ''beta'')]"
  by (simp add: run_defs sample_defs)

subsection \<open>Rebuilding the index\<close>

lemma insert_or_replace_fts_fault:
  "fault s (InsertOrReplaceFts r tokens) \<Longrightarrow>
   insert_or_replace_fts fault r tokens s = (Inl SqliteError, s)"
  by (simp add: insert_or_replace_fts_def)

lemma insert_or_replace_fts_ok:
  "\<not> fault s (InsertOrReplaceFts r tokens) \<Longrightarrow>
   \<exists>res s1. insert_or_replace_fts fault r tokens s = (Inr res, s1)"
  by (simp add: insert_or_replace_fts_def)

lemma reindex_rows_tokenizer_fault:
  "(i, body) \<in> set msgs \<Longrightarrow> tokenize body = Inl e \<Longrightarrow>
   \<exists>e' s'. reindex_rows tokenize fault msgs s = (Inl e', s')"
proof (induction msgs arbitrary: s)
  case Nil
  then show ?case by simp
next
  case (Cons m rest)
  obtain j b where m: "m = (j, b)" by (cases m)
  show ?case
  proof (cases "tokenize b")
    case (Inl e1)
    with m show ?thesis by simp
  next
    case tok: (Inr tokens)
    with Cons.prems m have "(i, body) \<in> set rest" by auto
    note ih = Cons.IH [OF this Cons.prems(2)]
    obtain r1 s1 where w: "insert_or_replace_fts fault j tokens s = (r1, s1)"
      by (cases "insert_or_replace_fts fault j tokens s")
    with m tok ih [of s1] show ?thesis by (cases r1) auto
  qed
qed

lemma reindex_rows_storage_fault:
  "(i, body) \<in> set msgs \<Longrightarrow> \<forall>t tokens. fault t (InsertOrReplaceFts i tokens) \<Longrightarrow>
   \<exists>e' s'. reindex_rows tokenize fault msgs s = (Inl e', s')"
proof (induction msgs arbitrary: s)
  case Nil
  then show ?case by simp
next
  case (Cons m rest)
  obtain j b where m: "m = (j, b)" by (cases m)
  show ?case
  proof (cases "tokenize b")
    case (Inl e1)
    with m show ?thesis by simp
  next
    case tok: (Inr tokens)
    show ?thesis
    proof (cases "j = i")
      case True
      with Cons.prems(2) have "insert_or_replace_fts fault j tokens s = (Inl SqliteError, s)"
        by (simp add: insert_or_replace_fts_fault)
      with m tok show ?thesis by simp
    next
      case False
      with Cons.prems m have "(i, body) \<in> set rest" by auto
      note ih = Cons.IH [OF this Cons.prems(2)]
      obtain r1 s1 where w: "insert_or_replace_fts fault j tokens s = (r1, s1)"
        by (cases "insert_or_replace_fts fault j tokens s")
      with m tok ih [of s1] show ?thesis by (cases r1) auto
    qed
  qed
qed

lemma reindex_rows_ok:
  "\<forall>(i, body) \<in> set msgs. \<exists>tokens. tokenize body = Inr tokens \<Longrightarrow>
   \<forall>t st. \<not> fault t st \<Longrightarrow>
   \<exists>s'. reindex_rows tokenize fault msgs s = (Inr (), s')"
proof (induction msgs arbitrary: s)
  case Nil
  then show ?case by simp
next
  case (Cons m rest)
  obtain j b where m: "m = (j, b)" by (cases m)
  with Cons.prems(1) obtain tokens where tok: "tokenize b = Inr tokens" by auto
  from Cons.prems(2) obtain res s1 where
    w: "insert_or_replace_fts fault j tokens s = (Inr res, s1)"
    using insert_or_replace_fts_ok by blast
  from Cons.prems(1) have "\<forall>(i, body) \<in> set rest. \<exists>tokens. tokenize body = Inr tokens"
    by simp
  from Cons.IH [OF this Cons.prems(2), of s1] m tok w show ?case by simp
qed

lemma reindexMessages_Inl:
  "reindexMessages tokenize fault s = (Inl e, s') \<longleftrightarrow>
   transaction (reindex_rows tokenize fault (map (\<lambda>(r, row). (r, m_content row)) (messages_v2 s))) s
     = (Inl e, s')"
  by (auto simp: reindexMessages_def Let_def split: prod.splits sum.splits)

lemma reindexMessages_Inr:
  "reindexMessages tokenize fault s = (Inr r, s') \<Longrightarrow>
   r = \<lparr> success = True, count' = length (messages_v2 s) \<rparr> \<and>
   reindex_rows tokenize fault (map (\<lambda>(r, row). (r, m_content row)) (messages_v2 s)) s
     = (Inr (), s')"
  by (cases "reindex_rows tokenize fault (map (\<lambda>(r, row). (r, m_content row)) (messages_v2 s)) s";
      cases "fst (reindex_rows tokenize fault (map (\<lambda>(r, row). (r, m_content row)) (messages_v2 s)) s)")
     (auto simp: reindexMessages_def transaction_def)

lemma insert_or_replace_fts_effect:
  "insert_or_replace_fts fault r tokens s = (Inr res, s1) \<Longrightarrow>
   conversations_v2 s1 = conversations_v2 s \<and> messages_v2 s1 = messages_v2 s \<and>
   messages_fts_index s1 = messages_fts_index s @ [(r, tokens)]"
  by (auto simp: insert_or_replace_fts_def split: if_splits)

lemma reindex_rows_step:
  "reindex_rows tokenize fault ((j, b) # rest) s = (Inr u, s') \<Longrightarrow>
   \<exists>tokens res s1. tokenize b = Inr tokens \<and>
      insert_or_replace_fts fault j tokens s = (Inr res, s1) \<and>
      reindex_rows tokenize fault rest s1 = (Inr u, s')"
  by (auto split: sum.splits prod.splits)

text \<open>What a run of the loop that did not throw has written: one entry for every message,
  in the order of the messages, after the entries that the index held.\<close>

lemma reindex_rows_effect:
  "reindex_rows tokenize fault msgs s = (Inr u, s') \<Longrightarrow>
   conversations_v2 s' = conversations_v2 s \<and> messages_v2 s' = messages_v2 s \<and>
   (\<exists>new. messages_fts_index s' = messages_fts_index s @ new \<and>
          map (\<lambda>(i, tokens). (i, Inr tokens)) new = map (\<lambda>(i, b). (i, tokenize b)) msgs)"
proof (induction msgs arbitrary: s)
  case Nil
  then show ?case by simp
next
  case (Cons m rest)
  obtain j b where m: "m = (j, b)" by (cases m)
  from reindex_rows_step [OF Cons.prems [unfolded m]] obtain tokens res s1 where
    tok: "tokenize b = Inr tokens" and
    w: "insert_or_replace_fts fault j tokens s = (Inr res, s1)" and
    rest: "reindex_rows tokenize fault rest s1 = (Inr u, s')"
    by blast
  note one = insert_or_replace_fts_effect [OF w]
  from Cons.IH [OF rest] obtain new where
    same: "conversations_v2 s' = conversations_v2 s1" "messages_v2 s' = messages_v2 s1" and
    ix: "messages_fts_index s' = messages_fts_index s1 @ new" and
    new: "map (\<lambda>(i, tokens). (i, Inr tokens)) new = map (\<lambda>(i, b). (i, tokenize b)) rest"
    by blast
  from ix one have a: "messages_fts_index s' = messages_fts_index s @ ((j, tokens) # new)"
    by simp
  from new tok m
  have b: "map (\<lambda>(i, tokens). (i, Inr tokens)) ((j, tokens) # new)
          = map (\<lambda>(i, b). (i, tokenize b)) (m # rest)"
    by simp
  from same one have t: "conversations_v2 s' = conversations_v2 s" "messages_v2 s' = messages_v2 s"
    by simp_all
  show ?case
  proof (intro conjI exI)
    show "conversations_v2 s' = conversations_v2 s" by (rule t(1))
    show "messages_v2 s' = messages_v2 s" by (rule t(2))
    show "messages_fts_index s' = messages_fts_index s @ ((j, tokens) # new)" by (rule a)
    show "map (\<lambda>(i, tokens). (i, Inr tokens)) ((j, tokens) # new)
          = map (\<lambda>(i, b). (i, tokenize b)) (m # rest)" by (rule b)
  qed
qed

lemma reindexMessages_fails:
  "reindex_rows tokenize fault (map (\<lambda>(r, row). (r, m_content row)) (messages_v2 s)) s = (Inl e, s1) \<Longrightarrow>
   \<exists>s'. reindexMessages tokenize fault s = (Inl e, s')"
  by (simp add: reindexMessages_def transaction_def)

lemma reindexMessages_succeeds:
  "reindex_rows tokenize fault (map (\<lambda>(r, row). (r, m_content row)) (messages_v2 s)) s = (Inr (), s1) \<Longrightarrow>
   reindexMessages tokenize fault s = (Inr \<lparr> success = True, count' = length (messages_v2 s) \<rparr>, s1)"
  by (simp add: reindexMessages_def transaction_def)

text \<open>
  Claim C2 says that a message on which the tokenizer fails is skipped and that
  \<open>reindexMessages\<close> still reports success.  In the code the tokenizer runs inside the
  transaction with no handler of its own: on the sample database, with a tokenizer that
  throws on the content of the second message only, the call throws.
\<close>

theorem reindexMessages_tokenizer_fault_counterexample:
  "picky_tokenizer ''good'' = Inr ''good'' \<and> picky_tokenizer ''bad'' = Inl TokenizerError \<and>
   map (\<lambda>(r, row). (r, m_content row)) (messages_v2 sample_db) = [(1, ''good''), (2, ''bad'')] \<and>
   fst (reindexMessages picky_tokenizer no_fault sample_db) = Inl TokenizerError"
  by (simp add: sample_db_eq reindexMessages_def transaction_def rollback_def
        insert_or_replace_fts_def picky_tokenizer_def no_fault_def)

text \<open>
  Claim C2, amended.  \<open>reindexMessages\<close> is all or nothing.  A call that throws leaves the
  stored tables as they were; the call throws whenever the tokenizer throws on the content
  of any message and whenever the write to the index fails for any message.  A call that
  returns reports success with the number of all messages of the table; it has left the
  two tables of rows as they were and has added to the index, for every message of the
  table and in their order, one entry with the rowid of the message and the tokens of its
  content.  The call returns when the tokenizer succeeds on every message and no write
  fails.
\<close>

theorem reindexMessages_all_or_nothing:
  "(\<forall>e s'. reindexMessages tokenize fault s = (Inl e, s') \<longrightarrow> stored s' = stored s) \<and>
   (\<forall>r s'. reindexMessages tokenize fault s = (Inr r, s') \<longrightarrow>
      r = \<lparr> success = True, count' = length (messages_v2 s) \<rparr> \<and>
      conversations_v2 s' = conversations_v2 s \<and> messages_v2 s' = messages_v2 s \<and>
      (\<exists>new. messages_fts_index s' = messages_fts_index s @ new \<and>
             map (\<lambda>(i, tokens). (i, Inr tokens)) new
               = map (\<lambda>(i, row). (i, tokenize (m_content row))) (messages_v2 s))) \<and>
   ((\<exists>(i, row) \<in> set (messages_v2 s). \<exists>e. tokenize (m_content row) = Inl e) \<longrightarrow>
      (\<exists>e s'. reindexMessages tokenize fault s = (Inl e, s'))) \<and>
   ((\<exists>(i, row) \<in> set (messages_v2 s). \<forall>t tokens. fault t (InsertOrReplaceFts i tokens)) \<longrightarrow>
      (\<exists>e s'. reindexMessages tokenize fault s = (Inl e, s'))) \<and>
   ((\<forall>(i, row) \<in> set (messages_v2 s). \<exists>tokens. tokenize (m_content row) = Inr tokens) \<longrightarrow>
    (\<forall>t st. \<not> fault t st) \<longrightarrow>
      (\<exists>s'. reindexMessages tokenize fault s
              = (Inr \<lparr> success = True, count' = length (messages_v2 s) \<rparr>, s')))"
proof -
  let ?msgs = "map (\<lambda>(r, row). (r, m_content row)) (messages_v2 s)"
  have part1: "\<forall>e s'. reindexMessages tokenize fault s = (Inl e, s') \<longrightarrow> stored s' = stored s"
    by (simp add: reindexMessages_Inl transaction_Inl)
  have part2: "\<forall>r s'. reindexMessages tokenize fault s = (Inr r, s') \<longrightarrow>
      r = \<lparr> success = True, count' = length (messages_v2 s) \<rparr> \<and>
      conversations_v2 s' = conversations_v2 s \<and> messages_v2 s' = messages_v2 s \<and>
      (\<exists>new. messages_fts_index s' = messages_fts_index s @ new \<and>
             map (\<lambda>(i, tokens). (i, Inr tokens)) new
               = map (\<lambda>(i, row). (i, tokenize (m_content row))) (messages_v2 s))"
  proof (intro allI impI)
    fix r s'
    assume "reindexMessages tokenize fault s = (Inr r, s')"
    from reindexMessages_Inr [OF this] have
      r: "r = \<lparr> success = True, count' = length (messages_v2 s) \<rparr>" and
      run: "reindex_rows tokenize fault ?msgs s = (Inr (), s')"
      by blast+
    have e: "map (\<lambda>(i, b). (i, tokenize b)) ?msgs
            = map (\<lambda>(i, row). (i, tokenize (m_content row))) (messages_v2 s)"
      by (simp add: split_beta)
    from reindex_rows_effect [OF run, unfolded e] r
    show "r = \<lparr> success = True, count' = length (messages_v2 s) \<rparr> \<and>
      conversations_v2 s' = conversations_v2 s \<and> messages_v2 s' = messages_v2 s \<and>
      (\<exists>new. messages_fts_index s' = messages_fts_index s @ new \<and>
             map (\<lambda>(i, tokens). (i, Inr tokens)) new
               = map (\<lambda>(i, row). (i, tokenize (m_content row))) (messages_v2 s))"
      by blast
  qed
  have part3: "(\<exists>(i, row) \<in> set (messages_v2 s). \<exists>e. tokenize (m_content row) = Inl e) \<longrightarrow>
      (\<exists>e s'. reindexMessages tokenize fault s = (Inl e, s'))"
  proof
    assume "\<exists>(i, row) \<in> set (messages_v2 s). \<exists>e. tokenize (m_content row) = Inl e"
    then obtain i row e where "(i, row) \<in> set (messages_v2 s)" "tokenize (m_content row) = Inl e"
      by auto
    then have "(i, m_content row) \<in> set ?msgs" "tokenize (m_content row) = Inl e"
      by force+
    from reindex_rows_tokenizer_fault
           [of i "m_content row" ?msgs tokenize e fault s, OF this]
    show "\<exists>e s'. reindexMessages tokenize fault s = (Inl e, s')"
      using reindexMessages_fails by blast
  qed
  have part4: "(\<exists>(i, row) \<in> set (messages_v2 s). \<forall>t tokens. fault t (InsertOrReplaceFts i tokens)) \<longrightarrow>
      (\<exists>e s'. reindexMessages tokenize fault s = (Inl e, s'))"
  proof
    assume "\<exists>(i, row) \<in> set (messages_v2 s). \<forall>t tokens. fault t (InsertOrReplaceFts i tokens)"
    then obtain i row where "(i, row) \<in> set (messages_v2 s)"
      "\<forall>t tokens. fault t (InsertOrReplaceFts i tokens)"
      by auto
    then have "(i, m_content row) \<in> set ?msgs" "\<forall>t tokens. fault t (InsertOrReplaceFts i tokens)"
      by force+
    from reindex_rows_storage_fault
           [of i "m_content row" ?msgs fault tokenize s, OF this]
    show "\<exists>e s'. reindexMessages tokenize fault s = (Inl e, s')"
      using reindexMessages_fails by blast
  qed
  have part5: "(\<forall>(i, row) \<in> set (messages_v2 s). \<exists>tokens. tokenize (m_content row) = Inr tokens) \<longrightarrow>
    (\<forall>t st. \<not> fault t st) \<longrightarrow>
      (\<exists>s'. reindexMessages tokenize fault s
              = (Inr \<lparr> success = True, count' = length (messages_v2 s) \<rparr>, s'))"
  proof (intro impI)
    assume "\<forall>(i, row) \<in> set (messages_v2 s). \<exists>tokens. tokenize (m_content row) = Inr tokens"
      and nf: "\<forall>t st. \<not> fault t st"
    then have "\<forall>(i, body) \<in> set ?msgs. \<exists>tokens. tokenize body = Inr tokens"
      by auto
    from reindex_rows_ok [of ?msgs tokenize fault s, OF this nf]
    show "\<exists>s'. reindexMessages tokenize fault s
              = (Inr \<lparr> success = True, count' = length (messages_v2 s) \<rparr>, s')"
      using reindexMessages_succeeds by blast
  qed
  from part1 part2 part3 part4 part5 show ?thesis by blast
qed

theorem reindexMessages_all_or_nothing_witness:
  "picky_tokenizer (m_content (snd (messages_v2 sample_db ! 1))) = Inl TokenizerError \<and>
   fst (reindexMessages picky_tokenizer no_fault sample_db) = Inl TokenizerError \<and>
   stored (snd (reindexMessages picky_tokenizer no_fault sample_db))
     = stored sample_db \<and>
   fst (reindexMessages plain_tokenizer no_fault sample_db)
     = Inr \<lparr> success = True, count' = 2 \<rparr> \<and>
   messages_fts_index (snd (reindexMessages plain_tokenizer no_fault sample_db))
     = [(1, ''good''), (2, ''bad''), (1, ''good''), (2, ''bad'')]"
proof -
  let ?run = "reindexMessages picky_tokenizer no_fault sample_db"
  note spec = reindexMessages_all_or_nothing [of picky_tokenizer no_fault sample_db]
  have bad: "picky_tokenizer (m_content (snd (messages_v2 sample_db ! 1))) = Inl TokenizerError"
    by (simp add: sample_db_eq picky_tokenizer_def)
  have thrown: "fst ?run = Inl TokenizerError"
    by (simp add: sample_db_eq reindexMessages_def transaction_def rollback_def
          insert_or_replace_fts_def picky_tokenizer_def no_fault_def)
  then have "?run = (Inl TokenizerError, snd ?run)"
    by (metis prod.collapse)
  with spec have same: "stored (snd ?run) = stored sample_db"
    by blast
  have ok: "fst (reindexMessages plain_tokenizer no_fault sample_db)
          = Inr \<lparr> success = True, count' = 2 \<rparr>"
    by (simp add: sample_db_eq reindexMessages_def transaction_def rollback_def
          insert_or_replace_fts_def plain_tokenizer_def no_fault_def)
  have ix: "messages_fts_index (snd (reindexMessages plain_tokenizer no_fault sample_db))
     = [(1, ''good''), (2, ''bad''), (1, ''good''), (2, ''bad'')]"
    by (simp add: sample_db_eq reindexMessages_def transaction_def rollback_def
          insert_or_replace_fts_def plain_tokenizer_def no_fault_def)
  from bad thrown same ok ix show ?thesis by blast
qed

subsection \<open>Highlighting with several keywords\<close>

text \<open>
  Claim C7 says that, when a keyword occurs in the content, the snippet is the window
  around the earliest match in which every occurrence of every keyword is wrapped in the
  highlight marker, with an ellipsis on each side where the window stops short of the
  content.  The second loop of the code replaces each keyword in the snippet that the
  keywords before it have already marked, so a keyword that occurs in the text of the
  marker itself is wrapped there too.  For the content \<open>make the text bold\<close> and the
  keywords \<open>bold\<close> and \<open>text\<close> the window is the whole content, and the result is not
  the content with its two words wrapped: the word \<open>text\<close> inside the class attribute
  of the marker around \<open>bold\<close> is wrapped as well.
\<close>

theorem generateSnippet_marks_inside_marker:
  "generateSnippet ascii_host ''make the text bold'' [''bold'', ''text''] 60
     = Inr (''make the '' @ highlight_open @ ''text'' @ highlight_close @ '' ''
            @ ''<b class=\"'' @ highlight_open @ ''text'' @ highlight_close
            @ ''-yellow-500 font-bold bg-yellow-100 dark:bg-yellow-900/30 px-1 rounded\">''
            @ ''bold'' @ highlight_close) \<and>
   generateSnippet ascii_host ''make the text bold'' [''bold'', ''text''] 60
     \<noteq> Inr (''make the '' @ highlight_open @ ''text'' @ highlight_close @ '' ''
            @ highlight_open @ ''bold'' @ highlight_close)"
proof -
  have run:
    "generateSnippet ascii_host ''make the text bold'' [''bold'', ''text''] 60
       = Inr (''make the '' @ highlight_open @ ''text'' @ highlight_close @ '' ''
              @ ''<b class=\"'' @ highlight_open @ ''text'' @ highlight_close
              @ ''-yellow-500 font-bold bg-yellow-100 dark:bg-yellow-900/30 px-1 rounded\">''
              @ ''bold'' @ highlight_close)"
    by code_simp
  have "''<b class=\"'' @ highlight_open @ ''text'' @ highlight_close
          @ ''-yellow-500 font-bold bg-yellow-100 dark:bg-yellow-900/30 px-1 rounded\">''
          @ ''bold'' @ highlight_close
        \<noteq> highlight_open @ ''bold'' @ highlight_close"
    by (simp add: highlight_open_def)
  with run show ?thesis by simp
qed

end
